theory Spec2Isabelle
  imports Complex_Main
begin

section \<open>The logging module \<^verbatim>\<open>pwnlib/log.py\<close>\<close>

subsection \<open>Python values, keyword arguments and the underlying sink\<close>

text \<open>
  The arguments of a log call are Python objects. The fragment needed here: \<^verbatim>\<open>None\<close>,
  integers, strings (of code points below 256, one \<open>char\<close> each) and references to
  \<^verbatim>\<open>Progress\<close> objects (an object is referred to by its identity).
\<close>

datatype pyval = PNone | PInt int | PStr string | PRef nat

type_synonym pydict = "string \<rightharpoonup> pyval"

text \<open>
  The exceptions that occur: the module's own \<^verbatim>\<open>PwnlibException\<close>, and the two that the
  string operator \<^verbatim>\<open>%\<close> raises. \<open>Unmodelled\<close> is no Python exception: it marks a use of
  \<^verbatim>\<open>%\<close> outside the fragment that \<open>py_format\<close> below covers.
\<close>

datatype pyexn = PwnlibException string | TypeError string | ValueError string | Unmodelled

text \<open>
  The keyword arguments of a log call: the dictionary under the key \<^verbatim>\<open>'extra'\<close>
  (absent when \<open>kw_extra\<close> is \<open>None\<close>), and every other keyword (\<^verbatim>\<open>exc_info\<close>, ...),
  which this module hands to the sink untouched.
\<close>

record kwargs =
  kw_extra :: "pydict option"
  kw_other :: pydict

definition no_kwargs :: kwargs where
  "no_kwargs = \<lparr>kw_extra = None, kw_other = Map.empty\<rparr>"

text \<open>The levels of the standard \<^verbatim>\<open>logging\<close> module.\<close>

definition NOTSET :: int where "NOTSET = 0"
definition DEBUG :: int where "DEBUG = 10"
definition INFO :: int where "INFO = 20"
definition WARNING :: int where "WARNING = 30"
definition ERROR :: int where "ERROR = 40"
definition CRITICAL :: int where "CRITICAL = 50"

text \<open>
  One call \<^verbatim>\<open>self._logger.log(level, msg, *args, **kwargs)\<close> on an underlying
  \<^verbatim>\<open>logging.Logger\<close>, which is named by \<open>rc_logger\<close>. The sink turns each call into one log
  record; the stream of these calls, in order, is what this module emits.
\<close>

record log_record =
  rc_logger :: string
  rc_level :: int
  rc_msg :: string
  rc_args :: "pyval list"
  rc_kwargs :: kwargs

text \<open>
  The mutable state of the module: the two class attributes \<^verbatim>\<open>Logger._one_time_infos\<close> and
  \<^verbatim>\<open>Logger._one_time_warnings\<close>, shared by all instances, and the calls received by the sink.
\<close>

record world =
  one_time_infos :: "string set"
  one_time_warnings :: "string set"
  sink :: "log_record list"

definition initial_world :: world where
  "initial_world = \<lparr>one_time_infos = {}, one_time_warnings = {}, sink = []\<rparr>"

text \<open>The records that the sink received between a state \<open>w\<close> and a later state \<open>w'\<close>.\<close>

definition emitted :: "world \<Rightarrow> world \<Rightarrow> log_record list" where
  "emitted w w' = drop (length (sink w)) (sink w')"

text \<open>\<^verbatim>\<open>dict.setdefault(k, v)\<close>: stores \<open>v\<close> only when the key is absent.\<close>

definition setdefault :: "pydict \<Rightarrow> string \<Rightarrow> pyval \<Rightarrow> pydict" where
  "setdefault d k v = (case d k of None \<Rightarrow> d(k \<mapsto> v) | Some _ \<Rightarrow> d)"

text \<open>The attributes \<^verbatim>\<open>pwnlib_msgtype\<close> and \<^verbatim>\<open>pwnlib_progress\<close> a call gives its record.\<close>

definition extra_of :: "log_record \<Rightarrow> pydict" where
  "extra_of r = (case kw_extra (rc_kwargs r) of None \<Rightarrow> Map.empty | Some e \<Rightarrow> e)"

definition msgtype_of :: "log_record \<Rightarrow> pyval option" where
  "msgtype_of r = extra_of r ''pwnlib_msgtype''"

definition progress_of :: "log_record \<Rightarrow> pyval option" where
  "progress_of r = extra_of r ''pwnlib_progress''"

text \<open>A record whose \<^verbatim>\<open>pwnlib_msgtype\<close> is the string \<open>t\<close>.\<close>

definition tagged :: "string \<Rightarrow> log_record \<Rightarrow> bool" where
  "tagged t r = (msgtype_of r = Some (PStr t))"

text \<open>Keyword arguments that do not preset the two attributes themselves.\<close>

definition unmarked :: "kwargs \<Rightarrow> bool" where
  "unmarked kw =
     (case kw_extra kw of
        None \<Rightarrow> True
      | Some e \<Rightarrow> e ''pwnlib_msgtype'' = None \<and> e ''pwnlib_progress'' = None)"

subsection \<open>Class \<^verbatim>\<open>Logger\<close>: the shared emit path\<close>

text \<open>A \<^verbatim>\<open>Logger\<close> wraps one underlying \<^verbatim>\<open>logging.Logger\<close>, here its name.\<close>

record logger =
  lg_logger :: string

text \<open>
  \<^verbatim>\<open>Logger._log(self, level, msg, args, kwargs, msgtype, progress = None)\<close>
\<close>

definition Logger_log ::
  "logger \<Rightarrow> int \<Rightarrow> string \<Rightarrow> pyval list \<Rightarrow> kwargs \<Rightarrow> pyval \<Rightarrow> pyval \<Rightarrow> world \<Rightarrow> world" where
  "Logger_log self level msg args kwargs msgtype progress w =
     (let extra = (case kw_extra kwargs of None \<Rightarrow> Map.empty | Some e \<Rightarrow> e);
          extra = setdefault extra ''pwnlib_msgtype'' msgtype;
          extra = setdefault extra ''pwnlib_progress'' progress;
          kwargs = kwargs\<lparr>kw_extra := Some extra\<rparr>
      in w\<lparr>sink := sink w @
            [\<lparr>rc_logger = lg_logger self, rc_level = level, rc_msg = msg,
              rc_args = args, rc_kwargs = kwargs\<rparr>]\<rparr>)"

subsection \<open>Class \<^verbatim>\<open>Progress\<close>\<close>

text \<open>
  The attributes \<^verbatim>\<open>_logger\<close>, \<^verbatim>\<open>_msg\<close>, \<^verbatim>\<open>_status\<close>, \<^verbatim>\<open>_level\<close>, \<^verbatim>\<open>_stopped\<close> and
  \<^verbatim>\<open>last_status\<close>, and the identity of the object, which is what a record's
  \<^verbatim>\<open>pwnlib_progress\<close> refers to. Times are the readings of \<^verbatim>\<open>time.time()\<close>, in seconds
  since the epoch, taken as exact real numbers.
\<close>

record progress =
  ident :: nat
  p_logger :: logger
  p_msg :: string
  p_status :: string
  p_level :: int
  p_stopped :: bool
  last_status :: real

text \<open>\<^verbatim>\<open>Progress._log(self, status, args, kwargs, msgtype)\<close>\<close>

definition Progress_log ::
  "progress \<Rightarrow> string \<Rightarrow> pyval list \<Rightarrow> kwargs \<Rightarrow> string \<Rightarrow> world \<Rightarrow> world" where
  "Progress_log self status args kwargs msgtype w =
     (if p_stopped self then w
      else
        let msg = p_msg self;
            msg = (if msg \<noteq> [] \<and> status \<noteq> [] then msg @ '': '' else msg);
            msg = msg @ status
        in Logger_log (p_logger self) (p_level self) msg args kwargs
             (PStr msgtype) (PRef (ident self)) w)"

text \<open>
  \<^verbatim>\<open>Progress.__init__(self, logger, msg, status, level, args, kwargs)\<close>; \<open>i\<close> is the identity
  of the object being created.
\<close>

definition Progress_init ::
  "nat \<Rightarrow> logger \<Rightarrow> string \<Rightarrow> string \<Rightarrow> int \<Rightarrow> pyval list \<Rightarrow> kwargs \<Rightarrow> world
     \<Rightarrow> progress \<times> world" where
  "Progress_init i logger msg status level args kwargs w =
     (let self = \<lparr>ident = i, p_logger = logger, p_msg = msg, p_status = status,
                   p_level = level, p_stopped = False, last_status = 0\<rparr>;
          w = Progress_log self status args kwargs ''status'' w;
          self = self\<lparr>last_status := 0\<rparr>
      in (self, w))"

text \<open>\<^verbatim>\<open>Progress.status(self, status, *args, **kwargs)\<close>; \<open>now\<close> is what \<^verbatim>\<open>time.time()\<close> returns.\<close>

definition Progress_status ::
  "progress \<Rightarrow> string \<Rightarrow> pyval list \<Rightarrow> kwargs \<Rightarrow> real \<Rightarrow> world \<Rightarrow> progress \<times> world" where
  "Progress_status self status args kwargs now w =
     (if now - last_status self > 0.1 then
        let self = self\<lparr>last_status := now\<rparr>
        in (self, Progress_log self status args kwargs ''status'' w)
      else (self, w))"

text \<open>\<^verbatim>\<open>Progress.success(self, status = 'Done', *args, **kwargs)\<close>\<close>

definition Progress_success ::
  "progress \<Rightarrow> string \<Rightarrow> pyval list \<Rightarrow> kwargs \<Rightarrow> world \<Rightarrow> progress \<times> world" where
  "Progress_success self status args kwargs w =
     (let w = Progress_log self status args kwargs ''success'' w
      in (self\<lparr>p_stopped := True\<rparr>, w))"

text \<open>\<^verbatim>\<open>Progress.failure(self, status = 'Failed', *args, **kwargs)\<close>\<close>

definition Progress_failure ::
  "progress \<Rightarrow> string \<Rightarrow> pyval list \<Rightarrow> kwargs \<Rightarrow> world \<Rightarrow> progress \<times> world" where
  "Progress_failure self status args kwargs w =
     (let w = Progress_log self status args kwargs ''failure'' w
      in (self\<lparr>p_stopped := True\<rparr>, w))"

text \<open>
  \<^verbatim>\<open>Progress.__exit__(self, exc_typ, exc_val, exc_tb)\<close>: \<open>exc\<close> is the exception in flight, if
  any. The two calls take the default status of the method they call.
\<close>

definition Progress_exit :: "progress \<Rightarrow> pyexn option \<Rightarrow> world \<Rightarrow> progress \<times> world" where
  "Progress_exit self exc w =
     (if exc = None then Progress_success self ''Done'' [] no_kwargs w
      else Progress_failure self ''Failed'' [] no_kwargs w)"

text \<open>
  The calls a holder of a \<^verbatim>\<open>Progress\<close> can make on it; a \<open>Status\<close> call carries the clock
  reading at which it is made.
\<close>

datatype call =
    Status string "pyval list" kwargs real
  | Success string "pyval list" kwargs
  | Failure string "pyval list" kwargs

fun do_call :: "call \<Rightarrow> progress \<times> world \<Rightarrow> progress \<times> world" where
  "do_call (Status s args kw now) (p, w) = Progress_status p s args kw now w"
| "do_call (Success s args kw) (p, w) = Progress_success p s args kw w"
| "do_call (Failure s args kw) (p, w) = Progress_failure p s args kw w"

fun do_calls :: "call list \<Rightarrow> progress \<times> world \<Rightarrow> progress \<times> world" where
  "do_calls [] pw = pw"
| "do_calls (c # cs) pw = do_calls cs (do_call c pw)"

fun call_status :: "call \<Rightarrow> string" where
  "call_status (Status s _ _ _) = s"
| "call_status (Success s _ _) = s"
| "call_status (Failure s _ _) = s"

fun call_kwargs :: "call \<Rightarrow> kwargs" where
  "call_kwargs (Status _ _ kw _) = kw"
| "call_kwargs (Success _ _ kw) = kw"
| "call_kwargs (Failure _ _ kw) = kw"

fun call_args :: "call \<Rightarrow> pyval list" where
  "call_args (Status _ args _ _) = args"
| "call_args (Success _ args _) = args"
| "call_args (Failure _ args _) = args"

fun is_Status :: "call \<Rightarrow> bool" where
  "is_Status (Status _ _ _ _) = True"
| "is_Status _ = False"

text \<open>
  \<^verbatim>\<open>with p: body\<close>, for a body that makes the calls \<open>body\<close> on \<open>p\<close> and then either ends
  (\<open>exc = None\<close>) or raises. \<^verbatim>\<open>__enter__\<close> returns \<open>p\<close> itself; \<^verbatim>\<open>__exit__\<close> returns
  \<^verbatim>\<open>None\<close>, so an exception of the body propagates out of the statement: it is the first
  component of the result.
\<close>

definition with_progress ::
  "progress \<Rightarrow> call list \<Rightarrow> pyexn option \<Rightarrow> world \<Rightarrow> pyexn option \<times> progress \<times> world" where
  "with_progress p body exc w =
     (let (p, w) = do_calls body (p, w);
          (p, w) = Progress_exit p exc w
      in (exc, p, w))"

subsection \<open>The string operator \<^verbatim>\<open>%\<close>\<close>

text \<open>
  \<^verbatim>\<open>message % args\<close> either yields the formatted string or raises. The methods below take
  the operator as a parameter \<open>fmt\<close>, so what is proved of them holds for every conversion
  Python knows.
\<close>

type_synonym formatting = "string \<Rightarrow> pyval list \<Rightarrow> pyexn + string"

text \<open>
  The operator itself on a fragment, for running the methods on concrete calls: the
  conversions \<^verbatim>\<open>%s\<close> (of \<^verbatim>\<open>None\<close>, an integer or a string) and \<^verbatim>\<open>%%\<close>, with \<open>args\<close> a tuple.
  Python reads the format from left to right and raises at the first fault: a lone \<^verbatim>\<open>%\<close>
  at the end is \<^verbatim>\<open>ValueError: incomplete format\<close>, a conversion with no argument left and
  an argument left over are \<^verbatim>\<open>TypeError\<close>s.
\<close>

fun str_nat :: "nat \<Rightarrow> string" where
  "str_nat n =
     (if n < 10 then [''0123456789'' ! n]
      else str_nat (n div 10) @ [''0123456789'' ! (n mod 10)])"

declare str_nat.simps [simp del]

definition str_int :: "int \<Rightarrow> string" where
  "str_int i = (if i < 0 then CHR ''-'' # str_nat (nat (- i)) else str_nat (nat i))"

fun py_str :: "pyval \<Rightarrow> string option" where
  "py_str PNone = Some ''None''"
| "py_str (PInt i) = Some (str_int i)"
| "py_str (PStr s) = Some s"
| "py_str (PRef _) = None"

fun prepend :: "string \<Rightarrow> pyexn + string \<Rightarrow> pyexn + string" where
  "prepend s (Inl e) = Inl e"
| "prepend s (Inr t) = Inr (s @ t)"

fun py_format :: formatting where
  "py_format [] [] = Inr []"
| "py_format [] (a # as) =
     Inl (TypeError ''not all arguments converted during string formatting'')"
| "py_format (c # cs) as =
     (if c \<noteq> CHR ''%'' then prepend [c] (py_format cs as)
      else
        (case cs of
           [] \<Rightarrow> Inl (ValueError ''incomplete format'')
         | d # ds \<Rightarrow>
             if d = CHR ''%'' then prepend ''%'' (py_format ds as)
             else if d = CHR ''s'' then
               (case as of
                  [] \<Rightarrow> Inl (TypeError ''not enough arguments for format string'')
                | a # as' \<Rightarrow>
                    (case py_str a of
                       None \<Rightarrow> Inl Unmodelled
                     | Some s \<Rightarrow> prepend s (py_format ds as')))
             else Inl Unmodelled))"

subsection \<open>Class \<^verbatim>\<open>Logger\<close>: the methods\<close>

text \<open>
  \<^verbatim>\<open>Logger.progress(self, message, status = '', *args, **kwargs)\<close>. The keyword \<^verbatim>\<open>level\<close>,
  which the method pops from \<^verbatim>\<open>kwargs\<close> with the default \<^verbatim>\<open>logging.INFO\<close>, is the argument
  \<open>level\<close>; \<open>i\<close> is the identity of the new object.
\<close>

definition Logger_progress ::
  "logger \<Rightarrow> nat \<Rightarrow> string \<Rightarrow> string \<Rightarrow> pyval list \<Rightarrow> int option \<Rightarrow> kwargs \<Rightarrow> world
     \<Rightarrow> progress \<times> world" where
  "Logger_progress self i message status args level kwargs w =
     (let level = (case level of None \<Rightarrow> INFO | Some l \<Rightarrow> l)
      in Progress_init i self message status level args kwargs w)"

text \<open>
  \<^verbatim>\<open>Logger.info_once(self, message, *args, **kwargs)\<close>. The result is the exception raised
  or \<open>Inr ()\<close>, with the state the call leaves.
\<close>

definition Logger_info_once ::
  "formatting \<Rightarrow> logger \<Rightarrow> string \<Rightarrow> pyval list \<Rightarrow> kwargs \<Rightarrow> world
     \<Rightarrow> (pyexn + unit) \<times> world" where
  "Logger_info_once fmt self message args kwargs w =
     (case fmt message args of
        Inl e \<Rightarrow> (Inl e, w)
      | Inr m \<Rightarrow>
          if m \<notin> one_time_infos w then
            let w = w\<lparr>one_time_infos := insert m (one_time_infos w)\<rparr>
            in (Inr (), Logger_log self INFO message args kwargs (PStr ''info_once'') PNone w)
          else (Inr (), w))"

text \<open>\<^verbatim>\<open>Logger.warning_once(self, message, *args, **kwargs)\<close>\<close>

definition Logger_warning_once ::
  "formatting \<Rightarrow> logger \<Rightarrow> string \<Rightarrow> pyval list \<Rightarrow> kwargs \<Rightarrow> world
     \<Rightarrow> (pyexn + unit) \<times> world" where
  "Logger_warning_once fmt self message args kwargs w =
     (case fmt message args of
        Inl e \<Rightarrow> (Inl e, w)
      | Inr m \<Rightarrow>
          if m \<notin> one_time_warnings w then
            let w = w\<lparr>one_time_warnings := insert m (one_time_warnings w)\<rparr>
            in (Inr (),
                Logger_log self WARNING message args kwargs (PStr ''warning_once'') PNone w)
          else (Inr (), w))"

text \<open>\<^verbatim>\<open>Logger.error(self, message, *args, **kwargs)\<close>\<close>

definition Logger_error ::
  "formatting \<Rightarrow> logger \<Rightarrow> string \<Rightarrow> pyval list \<Rightarrow> kwargs \<Rightarrow> world
     \<Rightarrow> (pyexn + unit) \<times> world" where
  "Logger_error fmt self message args kwargs w =
     (let w = Logger_log self ERROR message args kwargs (PStr ''error'') PNone w
      in case fmt message args of
           Inl e \<Rightarrow> (Inl e, w)
         | Inr m \<Rightarrow> (Inl (PwnlibException m), w))"

text \<open>
  A sequence of \<^verbatim>\<open>info_once\<close> (of \<^verbatim>\<open>warning_once\<close>) calls in one process, each on a logger of
  its own with its message, arguments and keyword arguments. A call that raises leaves
  the state as it found it, and the calls after it still run.
\<close>

type_synonym once_call = "logger \<times> string \<times> pyval list \<times> kwargs"

fun info_once_calls :: "formatting \<Rightarrow> once_call list \<Rightarrow> world \<Rightarrow> world" where
  "info_once_calls fmt [] w = w"
| "info_once_calls fmt ((lg, message, args, kw) # cs) w =
     info_once_calls fmt cs (snd (Logger_info_once fmt lg message args kw w))"

fun warning_once_calls :: "formatting \<Rightarrow> once_call list \<Rightarrow> world \<Rightarrow> world" where
  "warning_once_calls fmt [] w = w"
| "warning_once_calls fmt ((lg, message, args, kw) # cs) w =
     warning_once_calls fmt cs (snd (Logger_warning_once fmt lg message args kw w))"

text \<open>The strings that the calls of a sequence render, in order, and what a record renders.\<close>

fun renderings :: "formatting \<Rightarrow> once_call list \<Rightarrow> string list" where
  "renderings fmt [] = []"
| "renderings fmt ((lg, message, args, kw) # cs) =
     (case fmt message args of
        Inl e \<Rightarrow> renderings fmt cs
      | Inr m \<Rightarrow> m # renderings fmt cs)"

definition rendering :: "formatting \<Rightarrow> log_record \<Rightarrow> pyexn + string" where
  "rendering fmt r = fmt (rc_msg r) (rc_args r)"

subsection \<open>The level of the root logger\<close>

text \<open>
  \<^verbatim>\<open>closure()\<close> gives the class of the logger \<^verbatim>\<open>'pwnlib'\<close> a property \<^verbatim>\<open>level\<close> over the
  attribute \<^verbatim>\<open>_level\<close>. \<open>log_level\<close> is the value of \<^verbatim>\<open>context.log_level\<close> when the property is
  read; \<^verbatim>\<open>x or y\<close> on integers is \<open>x\<close> unless \<open>x\<close> is \<open>0\<close>.
\<close>

record patched_logger =
  level_attr :: int

definition setter :: "patched_logger \<Rightarrow> int \<Rightarrow> patched_logger" where
  "setter self level = self\<lparr>level_attr := level\<rparr>"

definition getter :: "patched_logger \<Rightarrow> int \<Rightarrow> int" where
  "getter self log_level =
     (if level_attr self \<noteq> 0 then level_attr self else min log_level INFO)"

text \<open>The module ends the patch with \<^verbatim>\<open>rootlogger.level = logging.NOTSET\<close>.\<close>

definition rootlogger_patched :: patched_logger where
  "rootlogger_patched = setter \<lparr>level_attr = NOTSET\<rparr> NOTSET"

text \<open>Then \<^verbatim>\<open>rootlogger = Logger(rootlogger)\<close>, around \<^verbatim>\<open>logging.getLogger('pwnlib')\<close>.\<close>

definition rootlogger :: logger where
  "rootlogger = \<lparr>lg_logger = ''pwnlib''\<rparr>"

subsection \<open>Class \<^verbatim>\<open>Formatter\<close>\<close>

text \<open>
  The decorations of \<^verbatim>\<open>pwnlib.term.text\<close> that the prefix table uses. The module is not
  among the sources, so the table takes it as a parameter.
\<close>

record text_module =
  magenta :: "string \<Rightarrow> string"
  bold_green :: "string \<Rightarrow> string"
  bold_red :: "string \<Rightarrow> string"
  bold_blue :: "string \<Rightarrow> string"
  bold_yellow :: "string \<Rightarrow> string"
  on_red :: "string \<Rightarrow> string"

text \<open>
  Modelled from the spec: \<^verbatim>\<open>pwnlib.term.text\<close> is missing. The spec gives the glyphs of the
  table bare (\<^verbatim>\<open>info\<close> is \<^verbatim>\<open>*\<close>, rendered \<^verbatim>\<open>[*]\<close>), as the module leaves them when the
  error stream is no terminal.
\<close>

definition plain_text :: text_module where
  "plain_text =
     \<lparr>magenta = (\<lambda>s. s), bold_green = (\<lambda>s. s), bold_red = (\<lambda>s. s),
      bold_blue = (\<lambda>s. s), bold_yellow = (\<lambda>s. s), on_red = (\<lambda>s. s)\<rparr>"

text \<open>The dictionary \<^verbatim>\<open>_msgtype_prefixes\<close>, in the order of the source.\<close>

definition msgtype_prefixes :: "text_module \<Rightarrow> (string \<times> string) list" where
  "msgtype_prefixes text =
     [(''status'', magenta text ''x''),
      (''success'', bold_green text ''+''),
      (''failure'', bold_red text ''-''),
      (''debug'', bold_red text ''DEBUG''),
      (''info'', bold_blue text ''*''),
      (''warning'', bold_yellow text ''!''),
      (''error'', on_red text ''ERROR''),
      (''exception'', on_red text ''ERROR''),
      (''critical'', on_red text ''CRITICAL''),
      (''info_once'', bold_blue text ''*''),
      (''warning_once'', bold_yellow text ''!'')]"

definition indent :: string where
  "indent = ''    ''"

definition nlindent :: string where
  "nlindent = CHR 0x0A # indent"

text \<open>
  \<^verbatim>\<open>str.splitlines()\<close> on the text that the default formatter returns. A \<open>char\<close> is a code
  point below 256. Among these a line ends at a line feed, a vertical tab, a form feed, a
  carriage return, one of the separators \<^verbatim>\<open>\x1c\<close>, \<^verbatim>\<open>\x1d\<close>, \<^verbatim>\<open>\x1e\<close>, and at the next-line
  character \<^verbatim>\<open>\x85\<close>; a carriage return and a line feed in a row are one line end. The line
  ends are dropped, and a line end that closes the string opens no further line. (On a
  byte string of Python 2 only the line feed and the carriage return end a line; the two
  readings agree on every message that has no line end but the line feed.) \<open>cur\<close> holds
  the characters of the line being read, last one first.
\<close>

definition line_boundary :: "char \<Rightarrow> bool" where
  "line_boundary c =
     (c = CHR 0x0A \<or> c = CHR 0x0B \<or> c = CHR 0x0C \<or> c = CHR 0x0D \<or>
      c = CHR 0x1C \<or> c = CHR 0x1D \<or> c = CHR 0x1E \<or> c = CHR 0x85)"

definition no_line_boundary :: "string \<Rightarrow> bool" where
  "no_line_boundary s = list_all (\<lambda>c. \<not> line_boundary c) s"

fun splitlines_from :: "string \<Rightarrow> string \<Rightarrow> string list" where
  "splitlines_from cur [] = (if cur = [] then [] else [rev cur])"
| "splitlines_from cur (c # cs) =
     (if c = CHR 0x0D then
        (case cs of
           [] \<Rightarrow> [rev cur]
         | d # ds \<Rightarrow>
             if d = CHR 0x0A then rev cur # splitlines_from [] ds
             else rev cur # splitlines_from [] cs)
      else if line_boundary c then rev cur # splitlines_from [] cs
      else splitlines_from (c # cur) cs)"

definition splitlines :: "string \<Rightarrow> string list" where
  "splitlines s = splitlines_from [] s"

text \<open>
  What the formatter makes of a message that has no line end but the line feed, said
  without the lines: a line feed that closes the message is dropped, and every other
  line feed is followed by the separator \<open>sep\<close> in its place.
\<close>

definition drop_final_newline :: "string \<Rightarrow> string" where
  "drop_final_newline s = (if s \<noteq> [] \<and> last s = CHR 0x0A then butlast s else s)"

definition newlines_to :: "string \<Rightarrow> string \<Rightarrow> string" where
  "newlines_to sep s = concat (map (\<lambda>c. if c = CHR 0x0A then sep else [c]) s)"

text \<open>A message that has no line end but the line feed.\<close>

definition newline_only :: "string \<Rightarrow> bool" where
  "newline_only s = no_line_boundary (filter (\<lambda>c. c \<noteq> CHR 0x0A) s)"

text \<open>\<^verbatim>\<open>sep.join(xs)\<close>\<close>

fun join :: "string \<Rightarrow> string list \<Rightarrow> string" where
  "join sep [] = []"
| "join sep [x] = x"
| "join sep (x # y # ys) = x @ sep @ join sep (y # ys)"

text \<open>
  \<^verbatim>\<open>Formatter.format(self, record)\<close>. \<open>msg\<close> is what the default formatter of \<^verbatim>\<open>logging\<close>
  returns for the record, and \<open>msgtype\<close> the record's \<^verbatim>\<open>pwnlib_msgtype\<close>, \<open>PNone\<close> when
  the record has none.
\<close>

definition Formatter_format :: "text_module \<Rightarrow> string \<Rightarrow> pyval \<Rightarrow> string" where
  "Formatter_format text msg msgtype =
     (if msgtype = PNone then msg
      else
        let prefix =
              (case (case msgtype of PStr t \<Rightarrow> map_of (msgtype_prefixes text) t | _ \<Rightarrow> None) of
                 Some glyph \<Rightarrow> ''['' @ glyph @ ''] ''
               | None \<Rightarrow>
                   if msgtype = PStr ''indented'' then indent
                   else if msgtype = PStr ''animated'' then []
                   else ''[?] '');
            msg = prefix @ msg
        in join nlindent (splitlines msg))"

subsection \<open>Example runs\<close>

text \<open>
  \<^verbatim>\<open>p = log.progress('Working')\<close> on the root logger in a fresh process, and the same
  \<^verbatim>\<open>Progress\<close> after \<^verbatim>\<open>p.success()\<close>.
\<close>

definition example_progress :: "progress \<times> world" where
  "example_progress =
     Logger_progress rootlogger 0 ''Working'' [] [] None no_kwargs initial_world"

definition example_stopped :: "progress \<times> world" where
  "example_stopped = do_call (Success ''Done'' [] no_kwargs) example_progress"

text \<open>
  A second logger, as \<^verbatim>\<open>getLogger('pwnlib.tubes')\<close> gives it, and the call
  \<^verbatim>\<open>lg.info_once('User %s connected', user)\<close> (or \<^verbatim>\<open>warning_once\<close>) on a logger.
\<close>

definition tubes_logger :: logger where
  "tubes_logger = \<lparr>lg_logger = ''pwnlib.tubes''\<rparr>"

definition connected :: "logger \<Rightarrow> string \<Rightarrow> once_call" where
  "connected lg user = (lg, ''User %s connected'', [PStr user], no_kwargs)"

section \<open>Verification\<close>

subsection \<open>Basic facts about the emit path\<close>

lemma sink_Logger_log:
  "sink (Logger_log self level msg args kwargs msgtype progress w) =
     sink w @
       [\<lparr>rc_logger = lg_logger self, rc_level = level, rc_msg = msg, rc_args = args,
         rc_kwargs = kwargs\<lparr>kw_extra := Some (setdefault (setdefault
           (case kw_extra kwargs of None \<Rightarrow> Map.empty | Some e \<Rightarrow> e)
           ''pwnlib_msgtype'' msgtype) ''pwnlib_progress'' progress)\<rparr>\<rparr>]"
  by (simp add: Logger_log_def Let_def)

lemma Progress_log_stopped: "p_stopped self \<Longrightarrow> Progress_log self status args kwargs t w = w"
  by (simp add: Progress_log_def)

lemma Progress_log_active:
  assumes "\<not> p_stopped self"
  shows "\<exists>r. Progress_log self status args kwargs t w = w\<lparr>sink := sink w @ [r]\<rparr> \<and>
           rc_logger r = lg_logger (p_logger self) \<and> rc_level r = p_level self \<and>
           rc_msg r = (if p_msg self \<noteq> [] \<and> status \<noteq> [] then p_msg self @ '': '' @ status
                       else p_msg self @ status) \<and>
           rc_args r = args \<and>
           (unmarked kwargs \<longrightarrow>
              msgtype_of r = Some (PStr t) \<and> progress_of r = Some (PRef (ident self)))"
proof -
  let ?e = "setdefault (setdefault
           (case kw_extra kwargs of None \<Rightarrow> Map.empty | Some e \<Rightarrow> e)
           ''pwnlib_msgtype'' (PStr t)) ''pwnlib_progress'' (PRef (ident self))"
  let ?r = "\<lparr>rc_logger = lg_logger (p_logger self), rc_level = p_level self,
      rc_msg = (if p_msg self \<noteq> [] \<and> status \<noteq> [] then p_msg self @ '': '' @ status
                else p_msg self @ status),
      rc_args = args, rc_kwargs = kwargs\<lparr>kw_extra := Some ?e\<rparr>\<rparr>"
  have "Progress_log self status args kwargs t w = w\<lparr>sink := sink w @ [?r]\<rparr>"
    using assms by (simp add: Progress_log_def Let_def Logger_log_def)
  moreover have "unmarked kwargs \<longrightarrow>
      msgtype_of ?r = Some (PStr t) \<and> progress_of ?r = Some (PRef (ident self))"
    by (auto simp: msgtype_of_def progress_of_def extra_of_def unmarked_def setdefault_def
        split: option.splits)
  ultimately show ?thesis
    by (intro exI [of _ ?r]) simp
qed

lemma emitted_same [simp]: "emitted w w = []"
  by (simp add: emitted_def)

lemma emitted_append [simp]: "emitted w (w\<lparr>sink := sink w @ rs\<rparr>) = rs"
  by (simp add: emitted_def)

text \<open>What a record of \<open>Progress._log\<close> carries as message.\<close>

lemma emitted_Progress_log_msg:
  "r \<in> set (emitted w (Progress_log self status args kwargs t w)) \<Longrightarrow>
   rc_msg r = (if p_msg self \<noteq> [] \<and> status \<noteq> [] then p_msg self @ '': '' @ status
               else p_msg self @ status)"
proof (cases "p_stopped self")
  case True
  then show "r \<in> set (emitted w (Progress_log self status args kwargs t w)) \<Longrightarrow> ?thesis"
    by (simp add: Progress_log_stopped)
next
  case False
  from Progress_log_active [OF this, of status args kwargs t w]
  show "r \<in> set (emitted w (Progress_log self status args kwargs t w)) \<Longrightarrow> ?thesis"
    by auto
qed

lemma emitted_do_call_msg:
  assumes "r \<in> set (emitted w (snd (do_call c (p, w))))"
  shows "rc_msg r = (if p_msg p \<noteq> [] \<and> call_status c \<noteq> [] then p_msg p @ '': '' @ call_status c
               else p_msg p @ call_status c)"
proof (cases c)
  case (Status s args kw now)
  with assms show ?thesis
    using emitted_Progress_log_msg [of r w "p\<lparr>last_status := now\<rparr>" s args kw "''status''"]
    by (simp add: Progress_status_def Let_def split: if_splits)
next
  case (Success s args kw)
  with assms show ?thesis
    using emitted_Progress_log_msg [of r w p s args kw "''success''"]
    by (simp add: Progress_success_def Let_def)
next
  case (Failure s args kw)
  with assms show ?thesis
    using emitted_Progress_log_msg [of r w p s args kw "''failure''"]
    by (simp add: Progress_failure_def Let_def)
qed

lemma emitted_Progress_init:
  "\<exists>r. emitted w (snd (Progress_init i lg base status lvl args kw w)) = [r] \<and>
     rc_msg r = (if base \<noteq> [] \<and> status \<noteq> [] then base @ '': '' @ status else base @ status) \<and>
     rc_level r = lvl \<and> rc_args r = args \<and>
     (unmarked kw \<longrightarrow> msgtype_of r = Some (PStr ''status'') \<and> progress_of r = Some (PRef i))"
  using Progress_log_active [of "\<lparr>ident = i, p_logger = lg, p_msg = base, p_status = status,
                   p_level = lvl, p_stopped = False, last_status = 0\<rparr>" status args kw "''status''" w]
  by (auto simp: Progress_init_def Let_def)

subsection \<open>Composition of the message\<close>

text \<open>
  Claim C6. Every record that a call of \<open>status\<close>, \<open>success\<close> or \<open>failure\<close> on a
  \<^verbatim>\<open>Progress\<close> emits, and the record that its creation emits, carries as message the base
  message, a colon, a space and the status when both are non-empty, and the status alone
  when the base message is empty. A \<^verbatim>\<open>Progress\<close> created with the base message
  \<^verbatim>\<open>Trying\<close> and the status \<^verbatim>\<open>connecting\<close> emits one record, with the message
  \<^verbatim>\<open>Trying: connecting\<close>. The message is the text handed to the sink, which renders it
  as it is when the call has no further arguments.
\<close>

theorem progress_message_composition:
  "(\<forall>r \<in> set (emitted w (snd (do_call c (p, w)))).
      (p_msg p \<noteq> [] \<and> call_status c \<noteq> [] \<longrightarrow> rc_msg r = p_msg p @ '': '' @ call_status c) \<and>
      (p_msg p = [] \<longrightarrow> rc_msg r = call_status c)) \<and>
   (\<forall>r \<in> set (emitted w (snd (Logger_progress lg i base status args level kw w))).
      (base \<noteq> [] \<and> status \<noteq> [] \<longrightarrow> rc_msg r = base @ '': '' @ status) \<and>
      (base = [] \<longrightarrow> rc_msg r = status)) \<and>
   map rc_msg (emitted w (snd (Logger_progress lg i ''Trying'' ''connecting'' args level kw w)))
     = [''Trying: connecting'']"
proof (intro conjI ballI)
  fix r assume "r \<in> set (emitted w (snd (do_call c (p, w))))"
  from emitted_do_call_msg [OF this]
  show "p_msg p \<noteq> [] \<and> call_status c \<noteq> [] \<longrightarrow> rc_msg r = p_msg p @ '': '' @ call_status c"
    and "p_msg p = [] \<longrightarrow> rc_msg r = call_status c"
    by simp_all
next
  fix r assume "r \<in> set (emitted w (snd (Logger_progress lg i base status args level kw w)))"
  then show "base \<noteq> [] \<and> status \<noteq> [] \<longrightarrow> rc_msg r = base @ '': '' @ status"
    and "base = [] \<longrightarrow> rc_msg r = status"
    using emitted_Progress_init
      [of w i lg base status "case level of None \<Rightarrow> INFO | Some l \<Rightarrow> l" args kw]
    by (auto simp: Logger_progress_def Let_def)
next
  show "map rc_msg (emitted w (snd (Logger_progress lg i ''Trying'' ''connecting'' args level kw w)))
     = [''Trying: connecting'']"
    using emitted_Progress_init
      [of w i lg "''Trying''" "''connecting''" "case level of None \<Rightarrow> INFO | Some l \<Rightarrow> l" args kw]
    by (auto simp: Logger_progress_def Let_def)
qed

theorem progress_message_composition_witness:
  "(let (p, w) = Logger_progress rootlogger 0 ''Trying'' [] [] None no_kwargs initial_world;
        c = Status ''connecting'' [] no_kwargs 1000;
        r = last (sink (snd (do_call c (p, w))))
    in r \<in> set (emitted w (snd (do_call c (p, w)))) \<and> p_msg p \<noteq> [] \<and> call_status c \<noteq> [] \<and>
       rc_msg r = ''Trying: connecting'')"
  using progress_message_composition
    [of "snd (Logger_progress rootlogger 0 ''Trying'' [] [] None no_kwargs initial_world)"
        "Status ''connecting'' [] no_kwargs 1000"
        "fst (Logger_progress rootlogger 0 ''Trying'' [] [] None no_kwargs initial_world)"]
  by (simp add: Logger_progress_def Progress_init_def Progress_log_def Logger_log_def
      Progress_status_def setdefault_def no_kwargs_def initial_world_def rootlogger_def
      INFO_def emitted_def Let_def)

text \<open>
  Claim C10. Every record that a call on a \<^verbatim>\<open>Progress\<close> with a non-empty base message
  emits for the empty status carries the base message alone, with no separator; a
  \<^verbatim>\<open>Progress\<close> created with the default status, the empty string, emits one record, whose
  message is its base message.
\<close>

theorem progress_message_empty_status:
  "(\<forall>r \<in> set (emitted w (snd (do_call c (p, w)))).
      p_msg p \<noteq> [] \<and> call_status c = [] \<longrightarrow> rc_msg r = p_msg p) \<and>
   map rc_msg (emitted w (snd (Logger_progress lg i base [] args level kw w))) = [base]"
proof (intro conjI ballI)
  fix r assume "r \<in> set (emitted w (snd (do_call c (p, w))))"
  from emitted_do_call_msg [OF this]
  show "p_msg p \<noteq> [] \<and> call_status c = [] \<longrightarrow> rc_msg r = p_msg p"
    by simp
next
  show "map rc_msg (emitted w (snd (Logger_progress lg i base [] args level kw w))) = [base]"
    using emitted_Progress_init
      [of w i lg base "[]" "case level of None \<Rightarrow> INFO | Some l \<Rightarrow> l" args kw]
    by (auto simp: Logger_progress_def Let_def)
qed

theorem progress_message_empty_status_witness:
  "(let (p, w) = Logger_progress rootlogger 0 ''Working'' [] [] None no_kwargs initial_world;
        c = Success [] [] no_kwargs;
        r = last (sink (snd (do_call c (p, w))))
    in r \<in> set (emitted w (snd (do_call c (p, w)))) \<and> p_msg p \<noteq> [] \<and> call_status c = [] \<and>
       rc_msg r = ''Working'')"
  using progress_message_empty_status
    [of "snd (Logger_progress rootlogger 0 ''Working'' [] [] None no_kwargs initial_world)"
        "Success [] [] no_kwargs"
        "fst (Logger_progress rootlogger 0 ''Working'' [] [] None no_kwargs initial_world)"]
  by (simp add: Logger_progress_def Progress_init_def Progress_log_def Logger_log_def
      Progress_success_def setdefault_def no_kwargs_def initial_world_def rootlogger_def
      INFO_def emitted_def Let_def)

lemmas example_defs =
  example_progress_def example_stopped_def Logger_progress_def Progress_init_def
  Progress_log_def Logger_log_def Progress_status_def Progress_success_def
  Progress_failure_def setdefault_def no_kwargs_def initial_world_def rootlogger_def
  INFO_def emitted_def Let_def

subsection \<open>Throttling of status updates\<close>

text \<open>
  Claim C1, as stated, fails: \<open>status\<close> never assigns the attribute \<^verbatim>\<open>_status\<close>. On an
  active \<^verbatim>\<open>Progress\<close> created with the empty status, a call \<^verbatim>\<open>status('Reticulating splines')\<close>
  made more than 100 ms after the last timestamp leaves the stored status text as it was.
\<close>

theorem status_text_not_stored:
  "\<not> p_stopped (fst example_progress) \<and>
   1000 - last_status (fst example_progress) > 0.1 \<and>
   p_status (fst (Progress_status (fst example_progress) ''Reticulating splines'' []
       no_kwargs 1000 (snd example_progress))) \<noteq> ''Reticulating splines''"
  by (simp add: example_defs)

text \<open>
  Claim C1, amended. On an active \<^verbatim>\<open>Progress\<close>, a call of \<open>status\<close> whose clock reading
  exceeds the last-status timestamp by more than 0.1 s sets the timestamp to that reading,
  changes no other attribute, and emits exactly one record, tagged \<^verbatim>\<open>status\<close>, referring
  back to this \<^verbatim>\<open>Progress\<close> and carrying the text in its message. A call within 0.1 s of
  the timestamp emits nothing and changes nothing. The keyword arguments are any that do
  not preset the tag or the back-reference themselves.
\<close>

theorem status_throttle:
  assumes "\<not> p_stopped p" and "unmarked kw"
  shows "(now - last_status p > 0.1 \<longrightarrow>
            (\<exists>r. Progress_status p text args kw now w =
                    (p\<lparr>last_status := now\<rparr>, w\<lparr>sink := sink w @ [r]\<rparr>) \<and>
                 msgtype_of r = Some (PStr ''status'') \<and>
                 progress_of r = Some (PRef (ident p)) \<and>
                 rc_msg r = p_msg p @ (if p_msg p \<noteq> [] \<and> text \<noteq> [] then '': '' else []) @ text)) \<and>
         (now - last_status p \<le> 0.1 \<longrightarrow> Progress_status p text args kw now w = (p, w))"
proof (intro conjI impI)
  assume late: "now - last_status p > 0.1"
  from assms have "\<not> p_stopped (p\<lparr>last_status := now\<rparr>)" by simp
  from Progress_log_active [OF this, of "text" args kw "''status''" w] assms(2)
  obtain r where "Progress_log (p\<lparr>last_status := now\<rparr>) text args kw ''status'' w =
        w\<lparr>sink := sink w @ [r]\<rparr>"
    and "msgtype_of r = Some (PStr ''status'')"
    and "progress_of r = Some (PRef (ident p))"
    and "rc_msg r = p_msg p @ (if p_msg p \<noteq> [] \<and> text \<noteq> [] then '': '' else []) @ text"
    by auto
  with late show "\<exists>r. Progress_status p text args kw now w =
                    (p\<lparr>last_status := now\<rparr>, w\<lparr>sink := sink w @ [r]\<rparr>) \<and>
                 msgtype_of r = Some (PStr ''status'') \<and>
                 progress_of r = Some (PRef (ident p)) \<and>
                 rc_msg r = p_msg p @ (if p_msg p \<noteq> [] \<and> text \<noteq> [] then '': '' else []) @ text"
    by (auto simp: Progress_status_def Let_def)
next
  assume "now - last_status p \<le> 0.1"
  then show "Progress_status p text args kw now w = (p, w)"
    by (simp add: Progress_status_def)
qed

theorem status_throttle_witness:
  "\<not> p_stopped (fst example_progress) \<and> unmarked no_kwargs \<and>
   1000 - last_status (fst example_progress) > 0.1 \<and>
   map rc_msg (emitted (snd example_progress)
     (snd (Progress_status (fst example_progress) ''Reticulating splines'' [] no_kwargs 1000
        (snd example_progress)))) = [''Working: Reticulating splines''] \<and>
   last_status (fst (Progress_status (fst example_progress) ''Reticulating splines'' []
        no_kwargs 1000 (snd example_progress))) = 1000 \<and>
   1000.05 - (1000::real) \<le> 0.1 \<and>
   Progress_status ((fst example_progress)\<lparr>last_status := 1000\<rparr>) ''dropped'' [] no_kwargs
     1000.05 (snd example_progress) =
     ((fst example_progress)\<lparr>last_status := 1000\<rparr>, snd example_progress)"
  using status_throttle [of "fst example_progress" no_kwargs 1000 "''Reticulating splines''"
      "[]" "snd example_progress"]
    status_throttle [of "(fst example_progress)\<lparr>last_status := 1000\<rparr>" no_kwargs "1000.05"
      "''dropped''" "[]" "snd example_progress"]
  by (simp add: example_defs unmarked_def)

subsection \<open>The stopped state\<close>

lemma do_call_stopped:
  "p_stopped p \<Longrightarrow>
   snd (do_call c (p, w)) = w \<and> p_stopped (fst (do_call c (p, w))) \<and>
   fst (do_call c (p, w)) = p\<lparr>last_status := last_status (fst (do_call c (p, w)))\<rparr>"
  by (cases c)
    (simp_all add: Progress_status_def Progress_success_def Progress_failure_def
      Progress_log_stopped Let_def)

lemma do_calls_stopped:
  "p_stopped p \<Longrightarrow>
   snd (do_calls cs (p, w)) = w \<and> p_stopped (fst (do_calls cs (p, w))) \<and>
   fst (do_calls cs (p, w)) = p\<lparr>last_status := last_status (fst (do_calls cs (p, w)))\<rparr>"
proof (induction cs arbitrary: p)
  case Nil
  then show ?case by simp
next
  case (Cons c cs)
  let ?p1 = "fst (do_call c (p, w))"
  from do_call_stopped [OF Cons.prems, of c w]
  have w1: "do_call c (p, w) = (?p1, w)" and st: "p_stopped ?p1"
    and p1: "?p1 = p\<lparr>last_status := last_status ?p1\<rparr>"
    by (simp_all add: prod_eq_iff)
  from Cons.IH [OF st]
  have "snd (do_calls cs (?p1, w)) = w" and "p_stopped (fst (do_calls cs (?p1, w)))"
    and "fst (do_calls cs (?p1, w)) =
           ?p1\<lparr>last_status := last_status (fst (do_calls cs (?p1, w)))\<rparr>"
    by simp_all
  with w1 p1 show ?case
    by (metis (no_types, lifting) do_calls.simps(2) progress.surjective progress.update_convs(7))
qed

lemma terminal_call_stops: "\<not> is_Status c \<Longrightarrow> p_stopped (fst (do_call c (p, w)))"
  by (cases c) (simp_all add: Progress_success_def Progress_failure_def Let_def)

text \<open>
  Claim C2, as stated, fails on the timestamp: \<open>status\<close> assigns \<^verbatim>\<open>last_status\<close> before
  \<^verbatim>\<open>_log\<close> tests the stopped flag. After \<^verbatim>\<open>p.success()\<close>, a call of \<open>status\<close> at the
  clock reading 1000 changes the timestamp of the stopped \<^verbatim>\<open>Progress\<close>.
\<close>

theorem stopped_timestamp_moves:
  "p_stopped (fst example_stopped) \<and>
   last_status (fst (Progress_status (fst example_stopped) ''late'' [] no_kwargs 1000
      (snd example_stopped))) \<noteq> last_status (fst example_stopped)"
  by (simp add: example_defs)

text \<open>
  Claim C2, amended. A call of \<open>success\<close> or \<open>failure\<close> sets the stopped flag; and on a
  stopped \<^verbatim>\<open>Progress\<close> every sequence of further \<open>status\<close>, \<open>success\<close> and \<open>failure\<close>
  calls emits no record, leaves the state of the module as it is, and leaves every
  attribute of the \<^verbatim>\<open>Progress\<close> but the last-status timestamp unchanged: base message,
  status text, level and stopped flag.
\<close>

theorem stopped_is_terminal:
  "(\<not> is_Status c \<longrightarrow> p_stopped (fst (do_call c (p0, w0)))) \<and>
   (p_stopped p \<longrightarrow>
      emitted w (snd (do_calls cs (p, w))) = [] \<and>
      snd (do_calls cs (p, w)) = w \<and>
      p_stopped (fst (do_calls cs (p, w))) \<and>
      fst (do_calls cs (p, w)) = p\<lparr>last_status := last_status (fst (do_calls cs (p, w)))\<rparr>)"
  using terminal_call_stops [of c p0 w0] do_calls_stopped [of p cs w]
  by simp

theorem stopped_is_terminal_witness:
  "\<not> is_Status (Success ''Done'' [] no_kwargs) \<and>
   p_stopped (fst example_stopped) \<and>
   emitted (snd example_stopped)
     (snd (do_calls [Status ''late'' [] no_kwargs 1000, Failure ''Failed'' [] no_kwargs,
                     Success ''Done'' [] no_kwargs] example_stopped)) = [] \<and>
   p_status (fst (do_calls [Status ''late'' [] no_kwargs 1000, Failure ''Failed'' [] no_kwargs,
                     Success ''Done'' [] no_kwargs] example_stopped)) = p_status (fst example_stopped)"
  using stopped_is_terminal [of "Success ''Done'' [] no_kwargs" "fst example_progress"
      "snd example_progress" "fst example_stopped" "snd example_stopped"
      "[Status ''late'' [] no_kwargs 1000, Failure ''Failed'' [] no_kwargs,
                     Success ''Done'' [] no_kwargs]"]
  by (simp add: example_defs)

subsection \<open>Leaving a scope\<close>

lemma Progress_status_active:
  assumes "\<not> p_stopped p" and "unmarked kw"
  shows "\<exists>rs. Progress_status p s args kw now w =
             (p\<lparr>last_status := last_status (fst (Progress_status p s args kw now w))\<rparr>,
              w\<lparr>sink := sink w @ rs\<rparr>) \<and>
           (\<forall>r \<in> set rs. tagged ''status'' r)"
proof (cases "now - last_status p > 0.1")
  case True
  from assms have "\<not> p_stopped (p\<lparr>last_status := now\<rparr>)" by simp
  from Progress_log_active [OF this, of s args kw "''status''" w] assms(2)
  obtain r where "Progress_log (p\<lparr>last_status := now\<rparr>) s args kw ''status'' w =
        w\<lparr>sink := sink w @ [r]\<rparr>" and "tagged ''status'' r"
    by (auto simp: tagged_def)
  with True show ?thesis
    by (intro exI [of _ "[r]"]) (simp add: Progress_status_def Let_def)
next
  case False
  then show ?thesis
    by (intro exI [of _ "[]"]) (simp add: Progress_status_def)
qed

lemma status_calls_only:
  assumes "\<not> p_stopped p" and "\<forall>c \<in> set body. is_Status c \<and> unmarked (call_kwargs c)"
  shows "\<exists>p' rs. do_calls body (p, w) = (p', w\<lparr>sink := sink w @ rs\<rparr>) \<and> \<not> p_stopped p' \<and>
           ident p' = ident p \<and> (\<forall>r \<in> set rs. tagged ''status'' r)"
  using assms
proof (induction body arbitrary: p w)
  case Nil
  show ?case
    using Nil.prems(1) by (intro exI [of _ p] exI [of _ "[]"]) simp
next
  case (Cons c body)
  from Cons.prems obtain s args kw now where c: "c = Status s args kw now" and kw: "unmarked kw"
    by (cases c) auto
  from Progress_status_active [OF Cons.prems(1) kw, of s args now w]
  obtain p1 rs1 where step: "do_call c (p, w) = (p1, w\<lparr>sink := sink w @ rs1\<rparr>)"
    and p1: "p1 = p\<lparr>last_status := last_status p1\<rparr>"
    and tags: "\<forall>r \<in> set rs1. tagged ''status'' r"
    using c by auto
  from p1 Cons.prems(1) have act: "\<not> p_stopped p1" and id1: "ident p1 = ident p"
    by (metis progress.select_convs(6) progress.surjective progress.update_convs(7),
        metis progress.select_convs(1) progress.surjective progress.update_convs(7))
  from Cons.prems(2) have "\<forall>c \<in> set body. is_Status c \<and> unmarked (call_kwargs c)" by simp
  from Cons.IH [OF act this, of "w\<lparr>sink := sink w @ rs1\<rparr>"]
  obtain p2 rs2 where rest: "do_calls body (p1, w\<lparr>sink := sink w @ rs1\<rparr>) =
       (p2, w\<lparr>sink := sink w @ rs1 @ rs2\<rparr>)" and act2: "\<not> p_stopped p2"
    and id2: "ident p2 = ident p1"
    and tags2: "\<forall>r \<in> set rs2. tagged ''status'' r"
    by auto
  from step rest have "do_calls (c # body) (p, w) = (p2, w\<lparr>sink := sink w @ (rs1 @ rs2)\<rparr>)"
    by simp
  moreover from tags tags2 have "\<forall>r \<in> set (rs1 @ rs2). tagged ''status'' r" by auto
  ultimately show ?case using act2 id1 id2
    by (intro exI [of _ p2] exI [of _ "rs1 @ rs2"]) simp
qed

text \<open>
  Claim C3. \<^verbatim>\<open>__exit__\<close> calls \<open>success\<close> (with its default status) when no exception is in
  flight and \<open>failure\<close> (with its default status) otherwise. For a \<^verbatim>\<open>Progress\<close> that is
  active when the scope is entered and a body that only makes \<open>status\<close> calls on it, a
  scope left by an exception \<open>e\<close> lets \<open>e\<close> propagate, stops the \<^verbatim>\<open>Progress\<close>, and
  emits exactly one record tagged \<^verbatim>\<open>failure\<close> and none tagged \<^verbatim>\<open>success\<close>, whatever the
  exception and whatever the body did before; a scope left normally emits exactly one
  record tagged \<^verbatim>\<open>success\<close> and none tagged \<^verbatim>\<open>failure\<close>.
\<close>

theorem scope_exit:
  assumes "\<not> p_stopped p"
    and "\<forall>c \<in> set body. is_Status c \<and> unmarked (call_kwargs c)"
  shows "Progress_exit q None v = Progress_success q ''Done'' [] no_kwargs v \<and>
         Progress_exit q (Some e) v = Progress_failure q ''Failed'' [] no_kwargs v \<and>
         (\<exists>p' w'. with_progress p body (Some e) w = (Some e, p', w') \<and> p_stopped p' \<and>
            length (filter (tagged ''failure'') (emitted w w')) = 1 \<and>
            filter (tagged ''success'') (emitted w w') = []) \<and>
         (\<exists>p' w'. with_progress p body None w = (None, p', w') \<and> p_stopped p' \<and>
            length (filter (tagged ''success'') (emitted w w')) = 1 \<and>
            filter (tagged ''failure'') (emitted w w') = [])"
proof -
  from status_calls_only [OF assms, of w]
  obtain p1 rs where body: "do_calls body (p, w) = (p1, w\<lparr>sink := sink w @ rs\<rparr>)"
    and act: "\<not> p_stopped p1" and tags: "\<forall>r \<in> set rs. tagged ''status'' r"
    by blast
  have unm: "unmarked no_kwargs"
    by (simp add: unmarked_def no_kwargs_def)
  from tags have nofail: "filter (tagged ''failure'') rs = []"
    and nosucc: "filter (tagged ''success'') rs = []"
    by (auto simp: tagged_def filter_empty_conv)
  let ?w1 = "w\<lparr>sink := sink w @ rs\<rparr>"
  from Progress_log_active [OF act, of "''Failed''" "[]" no_kwargs "''failure''" ?w1] unm
  obtain rf where rf: "Progress_log p1 ''Failed'' [] no_kwargs ''failure'' ?w1 =
      w\<lparr>sink := sink w @ (rs @ [rf])\<rparr>" and tf: "tagged ''failure'' rf"
    by (auto simp: tagged_def)
  from Progress_log_active [OF act, of "''Done''" "[]" no_kwargs "''success''" ?w1] unm
  obtain rd where rd: "Progress_log p1 ''Done'' [] no_kwargs ''success'' ?w1 =
      w\<lparr>sink := sink w @ (rs @ [rd])\<rparr>" and td: "tagged ''success'' rd"
    by (auto simp: tagged_def)
  from tf have tf': "\<not> tagged ''success'' rf" by (simp add: tagged_def)
  from td have td': "\<not> tagged ''failure'' rd" by (simp add: tagged_def)
  have exit_e: "with_progress p body (Some e) w =
      (Some e, p1\<lparr>p_stopped := True\<rparr>, w\<lparr>sink := sink w @ (rs @ [rf])\<rparr>)"
    using body rf
    by (simp add: with_progress_def Progress_exit_def Progress_failure_def Let_def)
  have exit_n: "with_progress p body None w =
      (None, p1\<lparr>p_stopped := True\<rparr>, w\<lparr>sink := sink w @ (rs @ [rd])\<rparr>)"
    using body rd
    by (simp add: with_progress_def Progress_exit_def Progress_success_def Let_def)
  have "\<exists>p' w'. with_progress p body (Some e) w = (Some e, p', w') \<and> p_stopped p' \<and>
            length (filter (tagged ''failure'') (emitted w w')) = 1 \<and>
            filter (tagged ''success'') (emitted w w') = []"
    using exit_e nofail nosucc tf tf' by simp
  moreover have "\<exists>p' w'. with_progress p body None w = (None, p', w') \<and> p_stopped p' \<and>
            length (filter (tagged ''success'') (emitted w w')) = 1 \<and>
            filter (tagged ''failure'') (emitted w w') = []"
    using exit_n nofail nosucc td td' by simp
  ultimately show ?thesis
    by (simp add: Progress_exit_def)
qed

theorem scope_exit_witness:
  "\<not> p_stopped (fst example_progress) \<and>
   is_Status (Status ''At 0'' [] no_kwargs 1000) \<and>
   unmarked (call_kwargs (Status ''At 0'' [] no_kwargs 1000)) \<and>
   is_Status (Status ''At 1'' [] no_kwargs 1000.5) \<and>
   unmarked (call_kwargs (Status ''At 1'' [] no_kwargs 1000.5)) \<and>
   map msgtype_of (emitted (snd example_progress)
     (snd (snd (with_progress (fst example_progress)
        [Status ''At 0'' [] no_kwargs 1000, Status ''At 1'' [] no_kwargs 1000.5]
        (Some (ValueError ''invalid literal'')) (snd example_progress))))) =
     [Some (PStr ''status''), Some (PStr ''status''), Some (PStr ''failure'')]"
  using scope_exit [of "fst example_progress"
      "[Status ''At 0'' [] no_kwargs 1000, Status ''At 1'' [] no_kwargs 1000.5]"
      "fst example_progress" "snd example_progress" "ValueError ''invalid literal''"
      "snd example_progress"]
  by (simp add: example_defs unmarked_def with_progress_def Progress_exit_def msgtype_of_def
      extra_of_def)

subsection \<open>The first status update\<close>

text \<open>
  Claim C9. The constructor emits one record and leaves the last-status timestamp at
  \<open>0\<close>, so the first \<open>status\<close> call on the new \<^verbatim>\<open>Progress\<close> emits a record and takes
  the timestamp, however soon after the construction it is made: the time of the
  construction does not enter. The clock reading \<open>now\<close> of that call is seconds since
  the epoch, hence more than \<open>0.1\<close> at any date after the first tenth of a second of 1970.
\<close>

theorem first_status_not_throttled:
  assumes "0.1 < now"
  shows "last_status (fst (Progress_init i lg base s lvl args kw w)) = 0 \<and>
         \<not> p_stopped (fst (Progress_init i lg base s lvl args kw w)) \<and>
         length (emitted w (snd (Progress_init i lg base s lvl args kw w))) = 1 \<and>
         length (emitted w'
           (snd (Progress_status (fst (Progress_init i lg base s lvl args kw w))
              s' args' kw' now w'))) = 1 \<and>
         last_status (fst (Progress_status (fst (Progress_init i lg base s lvl args kw w))
              s' args' kw' now w')) = now"
proof -
  let ?p = "fst (Progress_init i lg base s lvl args kw w)"
  have ts: "last_status ?p = 0" and act: "\<not> p_stopped ?p"
    by (simp_all add: Progress_init_def Let_def)
  from emitted_Progress_init [of w i lg base s lvl args kw]
  have one: "length (emitted w (snd (Progress_init i lg base s lvl args kw w))) = 1"
    by auto
  from act have "\<not> p_stopped (?p\<lparr>last_status := now\<rparr>)" by simp
  from Progress_log_active [OF this, of s' args' kw' "''status''" w']
  obtain r where "Progress_log (?p\<lparr>last_status := now\<rparr>) s' args' kw' ''status'' w' =
      w'\<lparr>sink := sink w' @ [r]\<rparr>"
    by blast
  with assms ts have "Progress_status ?p s' args' kw' now w' =
      (?p\<lparr>last_status := now\<rparr>, w'\<lparr>sink := sink w' @ [r]\<rparr>)"
    by (simp add: Progress_status_def Let_def)
  with ts act one show ?thesis by simp
qed

theorem first_status_not_throttled_witness:
  "(0.1::real) < 1000.01 \<and>
   last_status (fst (Progress_init 0 rootlogger ''Working'' [] INFO [] no_kwargs initial_world)) = 0 \<and>
   map rc_msg (emitted (snd (Progress_init 0 rootlogger ''Working'' [] INFO [] no_kwargs initial_world))
     (snd (Progress_status
        (fst (Progress_init 0 rootlogger ''Working'' [] INFO [] no_kwargs initial_world))
        ''Reticulating splines'' [] no_kwargs 1000.01
        (snd (Progress_init 0 rootlogger ''Working'' [] INFO [] no_kwargs initial_world))))) =
     [''Working: Reticulating splines'']"
  using first_status_not_throttled [of "1000.01" 0 rootlogger "''Working''" "[]" INFO "[]"
      no_kwargs initial_world
      "snd (Progress_init 0 rootlogger ''Working'' [] INFO [] no_kwargs initial_world)"
      "''Reticulating splines''" "[]" no_kwargs]
  by (simp add: example_defs)

subsection \<open>The level of the root logger\<close>

lemmas level_defs = NOTSET_def DEBUG_def INFO_def WARNING_def ERROR_def CRITICAL_def

text \<open>
  Claim C5. While the attribute \<^verbatim>\<open>_level\<close> of the root logger is \<^verbatim>\<open>NOTSET\<close>, as the module
  leaves it, the level read is the smaller of \<^verbatim>\<open>context.log_level\<close> and \<^verbatim>\<open>INFO\<close>: \<^verbatim>\<open>INFO\<close>
  for the global level \<^verbatim>\<open>WARNING\<close>, \<^verbatim>\<open>DEBUG\<close> for \<^verbatim>\<open>DEBUG\<close>. Once a level other than
  \<^verbatim>\<open>NOTSET\<close> has been set, \<^verbatim>\<open>ERROR\<close> for one, the level read is that level, whatever the
  global level.
\<close>

theorem root_level_resolution:
  "getter rootlogger_patched log_level = min log_level INFO \<and>
   getter (setter self NOTSET) log_level = min log_level INFO \<and>
   getter rootlogger_patched WARNING = INFO \<and>
   getter rootlogger_patched DEBUG = DEBUG \<and>
   (level \<noteq> NOTSET \<longrightarrow> getter (setter self level) log_level = level) \<and>
   getter (setter self ERROR) log_level = ERROR"
  by (simp add: getter_def setter_def rootlogger_patched_def level_defs)

theorem root_level_resolution_witness:
  "CRITICAL \<noteq> NOTSET \<and> getter (setter rootlogger_patched CRITICAL) DEBUG = CRITICAL"
  using root_level_resolution [of DEBUG rootlogger_patched CRITICAL]
  by (simp add: level_defs)

subsection \<open>The formatter\<close>

lemma splitlines_from_prefix:
  "no_line_boundary pre \<Longrightarrow>
   splitlines_from cur (pre @ s) = splitlines_from (rev pre @ cur) s"
proof (induction pre arbitrary: cur)
  case Nil
  show ?case by simp
next
  case (Cons c pre)
  from Cons.prems have c: "\<not> line_boundary c" and pre: "no_line_boundary pre"
    by (simp_all add: no_line_boundary_def)
  from c have cr: "c \<noteq> CHR 0x0D"
    by (auto simp: line_boundary_def)
  have "splitlines_from cur ((c # pre) @ s) = splitlines_from (c # cur) (pre @ s)"
    using c cr by simp
  also have "\<dots> = splitlines_from (rev pre @ c # cur) s"
    by (rule Cons.IH [OF pre])
  finally show ?case by simp
qed

lemma join_Cons: "join sep (x # xs) = x @ concat (map (\<lambda>l. sep @ l) xs)"
  by (induction xs arbitrary: x) simp_all

lemma splitlines_from_break:
  assumes "line_boundary c"
  shows "\<exists>ls. \<forall>cur. splitlines_from cur (c # cs) = rev cur # ls"
proof (cases "c = CHR 0x0D")
  case False
  with assms have "\<forall>cur. splitlines_from cur (c # cs) = rev cur # splitlines_from [] cs"
    by simp
  then show ?thesis ..
next
  case cr: True
  show ?thesis
  proof (cases cs)
    case Nil
    with cr have "\<forall>cur. splitlines_from cur (c # cs) = rev cur # []" by simp
    then show ?thesis ..
  next
    case (Cons d ds)
    show ?thesis
    proof (cases "d = CHR 0x0A")
      case True
      with cr Cons have "\<forall>cur. splitlines_from cur (c # cs) = rev cur # splitlines_from [] ds"
        by simp
      then show ?thesis ..
    next
      case False
      with cr Cons have "\<forall>cur. splitlines_from cur (c # cs) = rev cur # splitlines_from [] cs"
        by simp
      then show ?thesis ..
    qed
  qed
qed

lemma splitlines_from_char:
  "\<not> line_boundary c \<Longrightarrow> splitlines_from cur (c # cs) = splitlines_from (c # cur) cs"
  by (auto simp: line_boundary_def)

lemma splitlines_from_first:
  "s \<noteq> [] \<Longrightarrow>
   \<exists>l ls. \<forall>cur. splitlines_from cur s = (rev cur @ l) # ls"
proof (induction s)
  case Nil
  then show ?case by simp
next
  case (Cons c cs)
  show ?case
  proof (cases "line_boundary c")
    case True
    from splitlines_from_break [OF this, of cs]
    obtain ls where "\<forall>cur. splitlines_from cur (c # cs) = rev cur # ls" ..
    then have "\<forall>cur. splitlines_from cur (c # cs) = (rev cur @ []) # ls" by simp
    then show ?thesis by blast
  next
    case False
    note step = splitlines_from_char [OF False]
    show ?thesis
    proof (cases "cs = []")
      case True
      have "\<forall>cur. splitlines_from cur (c # cs) = (rev cur @ [c]) # []"
        unfolding step using True by simp
      then show ?thesis by blast
    next
      case nonempty: False
      from Cons.IH [OF this] obtain l ls
        where all: "\<forall>cur. splitlines_from cur cs = (rev cur @ l) # ls"
        by blast
      have "\<forall>cur. splitlines_from cur (c # cs) = (rev cur @ (c # l)) # ls"
        unfolding step using all by simp
      then show ?thesis by blast
    qed
  qed
qed

lemma splitlines_prefixed:
  assumes "msg \<noteq> []" and "no_line_boundary pre"
  shows "\<exists>first rest. splitlines msg = first # rest \<and>
           splitlines (pre @ msg) = (pre @ first) # rest"
proof -
  from splitlines_from_first [OF assms(1)] obtain l ls
    where all: "\<forall>cur. splitlines_from cur msg = (rev cur @ l) # ls"
    by blast
  from all have "splitlines_from [] msg = l # ls"
    by simp
  moreover have "splitlines_from [] (pre @ msg) = splitlines_from (rev pre) msg"
    using splitlines_from_prefix [OF assms(2), of "[]" msg] by simp
  with all have "splitlines_from [] (pre @ msg) = (pre @ l) # ls"
    by simp
  ultimately show ?thesis
    by (simp add: splitlines_def)
qed

text \<open>Joining the lines of a message whose only line end is the line feed.\<close>

lemma drop_final_newline_Cons:
  "cs \<noteq> [] \<Longrightarrow> drop_final_newline (c # cs) = c # drop_final_newline cs"
  by (simp add: drop_final_newline_def)

lemma join_after_separator:
  "xs \<noteq> [] \<Longrightarrow> concat (map (\<lambda>l. sep @ l) xs) = sep @ join sep xs"
  by (cases xs) (simp_all add: join_Cons)

lemma join_splitlines_from:
  assumes "\<forall>c \<in> set s. line_boundary c \<longrightarrow> c = CHR 0x0A"
  shows "join sep (splitlines_from cur s) = rev cur @ newlines_to sep (drop_final_newline s)"
  using assms
proof (induction s arbitrary: cur)
  case Nil
  show ?case
    by (simp add: newlines_to_def drop_final_newline_def)
next
  case (Cons c cs)
  from Cons.prems have rest: "\<forall>c \<in> set cs. line_boundary c \<longrightarrow> c = CHR 0x0A"
    by simp
  show ?case
  proof (cases "c = CHR 0x0A")
    case lf: True
    then have split: "splitlines_from cur (c # cs) = rev cur # splitlines_from [] cs"
      by (simp add: line_boundary_def)
    show ?thesis
    proof (cases "cs = []")
      case True
      with lf show ?thesis
        by (simp add: newlines_to_def drop_final_newline_def line_boundary_def)
    next
      case False
      from splitlines_from_first [OF False] have "splitlines_from [] cs \<noteq> []"
        by (metis list.distinct(1))
      from join_after_separator [OF this, of sep]
      have "concat (map (\<lambda>l. sep @ l) (splitlines_from [] cs)) =
          sep @ join sep (splitlines_from [] cs)" .
      also have "\<dots> = sep @ newlines_to sep (drop_final_newline cs)"
        using Cons.IH [OF rest, of "[]"] by simp
      finally have "join sep (splitlines_from cur (c # cs)) =
          rev cur @ sep @ newlines_to sep (drop_final_newline cs)"
        unfolding split by (simp add: join_Cons)
      moreover have "newlines_to sep (drop_final_newline (c # cs)) =
          sep @ newlines_to sep (drop_final_newline cs)"
        using lf False by (simp add: drop_final_newline_Cons newlines_to_def)
      ultimately show ?thesis by simp
    qed
  next
    case False
    with Cons.prems have nb: "\<not> line_boundary c"
      by auto
    have "join sep (splitlines_from cur (c # cs)) = join sep (splitlines_from (c # cur) cs)"
      by (simp only: splitlines_from_char [OF nb])
    also have "\<dots> = rev (c # cur) @ newlines_to sep (drop_final_newline cs)"
      by (rule Cons.IH [OF rest])
    finally have left: "join sep (splitlines_from cur (c # cs)) =
        rev cur @ c # newlines_to sep (drop_final_newline cs)"
      by simp
    have "newlines_to sep (drop_final_newline (c # cs)) =
        c # newlines_to sep (drop_final_newline cs)"
    proof (cases "cs = []")
      case True
      with False show ?thesis
        by (simp add: drop_final_newline_def newlines_to_def)
    next
      case nonempty: False
      with False show ?thesis
        by (simp add: drop_final_newline_Cons newlines_to_def)
    qed
    with left show ?thesis by simp
  qed
qed

lemma bracket_clean:
  "no_line_boundary glyph \<Longrightarrow> no_line_boundary (''['' @ glyph @ ''] '')"
  by (simp add: no_line_boundary_def line_boundary_def)

lemma format_in_table:
  "map_of (msgtype_prefixes txt) tag = Some glyph \<Longrightarrow>
   Formatter_format txt msg (PStr tag) =
     join nlindent (splitlines ((''['' @ glyph @ ''] '') @ msg))"
  by (simp add: Formatter_format_def Let_def)

lemma format_example:
  "Formatter_format plain_text ''line one\<newline>line two'' (PStr ''info'') =
     ''[*] line one\<newline>    line two''"
  by (simp add: Formatter_format_def Let_def nlindent_def indent_def msgtype_prefixes_def
      plain_text_def splitlines_def line_boundary_def)

lemma newline_onlyD:
  "newline_only s \<Longrightarrow> \<forall>c \<in> set s. line_boundary c \<longrightarrow> c = CHR 0x0A"
  by (auto simp: newline_only_def no_line_boundary_def list_all_iff)

lemma format_newline_only:
  assumes "map_of (msgtype_prefixes txt) tag = Some glyph"
    and "no_line_boundary glyph" and "newline_only msg"
  shows "Formatter_format txt msg (PStr tag) =
           ''['' @ glyph @ ''] '' @
           newlines_to (CHR 0x0A # ''    '') (drop_final_newline msg)"
proof -
  let ?pre = "''['' @ glyph @ ''] ''"
  have "Formatter_format txt msg (PStr tag) = join nlindent (splitlines (?pre @ msg))"
    by (rule format_in_table [OF assms(1)])
  also have "\<dots> = join nlindent (splitlines_from (rev ?pre) msg)"
    using splitlines_from_prefix [OF bracket_clean [OF assms(2)], of "[]" msg]
    by (simp add: splitlines_def)
  also have "\<dots> = rev (rev ?pre) @ newlines_to nlindent (drop_final_newline msg)"
    by (rule join_splitlines_from [OF newline_onlyD [OF assms(3)]])
  finally show ?thesis
    by (simp add: nlindent_def indent_def)
qed

text \<open>
  Claim C7. For a record whose tag is in the prefix table, with glyph \<open>glyph\<close>, and whose
  default-rendered message contains a newline, \<open>format\<close> returns the bracketed glyph and
  a space, then the first line of the message, then every further line after a newline
  and exactly four spaces; the lines are those that \<^verbatim>\<open>splitlines\<close> finds. Said without the
  lines, for a message whose only line end is the newline: the result is the bracketed
  glyph, a space and the message, in which a newline that closes the message is dropped
  and every other newline is followed by exactly four spaces. The decorated glyph is
  taken to hold no line end of its own. The two-line message \<^verbatim>\<open>line one\<close>, \<^verbatim>\<open>line two\<close>
  tagged \<^verbatim>\<open>info\<close> formats, with bare glyphs, to \<^verbatim>\<open>[*] line one\<close> and, on the next line
  after four spaces, \<^verbatim>\<open>line two\<close>.
\<close>

theorem format_multiline:
  assumes "map_of (msgtype_prefixes txt) tag = Some glyph"
    and "CHR 0x0A \<in> set msg"
    and "no_line_boundary glyph"
  shows "(\<exists>first rest. splitlines msg = first # rest \<and>
            Formatter_format txt msg (PStr tag) =
              ''['' @ glyph @ ''] '' @ first @
              concat (map (\<lambda>line. CHR 0x0A # ''    '' @ line) rest)) \<and>
         (newline_only msg \<longrightarrow>
            Formatter_format txt msg (PStr tag) =
              ''['' @ glyph @ ''] '' @
              newlines_to (CHR 0x0A # ''    '') (drop_final_newline msg)) \<and>
         Formatter_format plain_text ''line one\<newline>line two'' (PStr ''info'') =
           ''[*] line one\<newline>    line two''"
proof (intro conjI impI)
  from assms(2) have nonempty: "msg \<noteq> []" by auto
  from splitlines_prefixed [OF nonempty bracket_clean [OF assms(3)]]
  obtain first rest where lines: "splitlines msg = first # rest"
    and pre: "splitlines ((''['' @ glyph @ ''] '') @ msg) = ((''['' @ glyph @ ''] '') @ first) # rest"
    by blast
  have "Formatter_format txt msg (PStr tag) =
          join nlindent (((''['' @ glyph @ ''] '') @ first) # rest)"
    using format_in_table [OF assms(1), of msg] pre by simp
  also have "\<dots> = ((''['' @ glyph @ ''] '') @ first) @ concat (map (\<lambda>l. nlindent @ l) rest)"
    by (rule join_Cons)
  also have "\<dots> = ''['' @ glyph @ ''] '' @ first @
              concat (map (\<lambda>line. CHR 0x0A # ''    '' @ line) rest)"
    by (simp add: nlindent_def indent_def)
  finally show "\<exists>first rest. splitlines msg = first # rest \<and>
            Formatter_format txt msg (PStr tag) =
              ''['' @ glyph @ ''] '' @ first @
              concat (map (\<lambda>line. CHR 0x0A # ''    '' @ line) rest)"
    using lines by blast
next
  assume "newline_only msg"
  from format_newline_only [OF assms(1,3) this]
  show "Formatter_format txt msg (PStr tag) =
          ''['' @ glyph @ ''] '' @
          newlines_to (CHR 0x0A # ''    '') (drop_final_newline msg)" .
next
  show "Formatter_format plain_text ''line one\<newline>line two'' (PStr ''info'') =
           ''[*] line one\<newline>    line two''"
    by (rule format_example)
qed

lemmas format_defs =
  Formatter_format_def Let_def nlindent_def indent_def msgtype_prefixes_def plain_text_def
  splitlines_def line_boundary_def no_line_boundary_def newline_only_def newlines_to_def
  drop_final_newline_def

theorem format_multiline_witness:
  "map_of (msgtype_prefixes plain_text) ''warning'' = Some ''!'' \<and>
   no_line_boundary ''!'' \<and>
   CHR 0x0A \<in> set ''a\<newline>\<newline>b\<newline>'' \<and>
   newline_only ''a\<newline>\<newline>b\<newline>'' \<and>
   splitlines ''a\<newline>\<newline>b\<newline>'' = [''a'', [], ''b''] \<and>
   newlines_to (CHR 0x0A # ''    '') (drop_final_newline ''a\<newline>\<newline>b\<newline>'') =
     ''a\<newline>    \<newline>    b'' \<and>
   Formatter_format plain_text ''a\<newline>\<newline>b\<newline>'' (PStr ''warning'') =
     ''[!] a\<newline>    \<newline>    b'' \<and>
   map_of (msgtype_prefixes plain_text) ''info'' = Some ''*'' \<and>
   no_line_boundary ''*'' \<and>
   CHR 0x0A \<in> set (''a'' @ [CHR 0x0C] @ ''b\<newline>c'') \<and>
   splitlines (''a'' @ [CHR 0x0C] @ ''b\<newline>c'') = [''a'', ''b'', ''c''] \<and>
   Formatter_format plain_text (''a'' @ [CHR 0x0C] @ ''b\<newline>c'') (PStr ''info'') =
     ''[*] a\<newline>    b\<newline>    c''"
  using format_multiline [of plain_text "''warning''" "''!''" "''a\<newline>\<newline>b\<newline>''"]
    format_multiline [of plain_text "''info''" "''*''" "''a'' @ [CHR 0x0C] @ ''b\<newline>c''"]
  by (simp add: format_defs)

subsection \<open>One-time messages\<close>

lemma Logger_log_record:
  "\<exists>r. Logger_log lg level msg args kw t pr w = w\<lparr>sink := sink w @ [r]\<rparr> \<and>
     rc_msg r = msg \<and> rc_args r = args \<and> rc_level r = level \<and>
     rc_logger r = lg_logger lg \<and> (unmarked kw \<longrightarrow> msgtype_of r = Some t)"
proof -
  let ?r = "\<lparr>rc_logger = lg_logger lg, rc_level = level, rc_msg = msg, rc_args = args,
      rc_kwargs = kw\<lparr>kw_extra := Some (setdefault (setdefault
           (case kw_extra kw of None \<Rightarrow> Map.empty | Some e \<Rightarrow> e)
           ''pwnlib_msgtype'' t) ''pwnlib_progress'' pr)\<rparr>\<rparr>"
  have "Logger_log lg level msg args kw t pr w = w\<lparr>sink := sink w @ [?r]\<rparr>"
    by (simp add: Logger_log_def Let_def)
  moreover have "unmarked kw \<longrightarrow> msgtype_of ?r = Some t"
    by (auto simp: msgtype_of_def extra_of_def unmarked_def setdefault_def split: option.splits)
  ultimately show ?thesis
    by (intro exI [of _ ?r]) simp
qed

lemma info_once_fails:
  "fmt message args = Inl e \<Longrightarrow> Logger_info_once fmt lg message args kw w = (Inl e, w)"
  by (simp add: Logger_info_once_def)

lemma info_once_seen:
  "fmt message args = Inr m \<Longrightarrow> m \<in> one_time_infos w \<Longrightarrow>
   Logger_info_once fmt lg message args kw w = (Inr (), w)"
  by (simp add: Logger_info_once_def)

lemma info_once_new:
  assumes "fmt message args = Inr m" and "m \<notin> one_time_infos w"
  shows "\<exists>r. Logger_info_once fmt lg message args kw w =
            (Inr (), w\<lparr>one_time_infos := insert m (one_time_infos w), sink := sink w @ [r]\<rparr>) \<and>
          rc_msg r = message \<and> rc_args r = args \<and> rc_level r = INFO"
proof -
  from Logger_log_record [of lg INFO message args kw "PStr ''info_once''" PNone
      "w\<lparr>one_time_infos := insert m (one_time_infos w)\<rparr>"]
  obtain r where "Logger_log lg INFO message args kw (PStr ''info_once'') PNone
        (w\<lparr>one_time_infos := insert m (one_time_infos w)\<rparr>) =
      w\<lparr>one_time_infos := insert m (one_time_infos w), sink := sink w @ [r]\<rparr>"
    and "rc_msg r = message" and "rc_args r = args" and "rc_level r = INFO"
    by auto
  with assms show ?thesis
    by (intro exI [of _ r]) (simp add: Logger_info_once_def Let_def)
qed

lemma info_once_calls_run:
  "\<exists>rs. info_once_calls fmt cs w =
           w\<lparr>one_time_infos := one_time_infos w \<union> set (renderings fmt cs),
             sink := sink w @ rs\<rparr> \<and>
         distinct (map (rendering fmt) rs) \<and>
         set (map (rendering fmt) rs) = Inr ` (set (renderings fmt cs) - one_time_infos w)"
proof (induction cs arbitrary: w)
  case Nil
  show ?case by (intro exI [of _ "[]"]) simp
next
  case (Cons c cs)
  obtain lg message args kw where c: "c = (lg, message, args, kw)"
    by (cases c) auto
  show ?case
  proof (cases "fmt message args")
    case (Inl e)
    from Cons.IH [of w] obtain rs where "info_once_calls fmt cs w =
           w\<lparr>one_time_infos := one_time_infos w \<union> set (renderings fmt cs),
             sink := sink w @ rs\<rparr>"
      and "distinct (map (rendering fmt) rs)"
      and "set (map (rendering fmt) rs) = Inr ` (set (renderings fmt cs) - one_time_infos w)"
      by blast
    with c Inl show ?thesis
      by (intro exI [of _ rs]) (simp add: info_once_fails)
  next
    case (Inr m)
    show ?thesis
    proof (cases "m \<in> one_time_infos w")
      case True
      from Cons.IH [of w] obtain rs where "info_once_calls fmt cs w =
           w\<lparr>one_time_infos := one_time_infos w \<union> set (renderings fmt cs),
             sink := sink w @ rs\<rparr>"
        and "distinct (map (rendering fmt) rs)"
        and "set (map (rendering fmt) rs) = Inr ` (set (renderings fmt cs) - one_time_infos w)"
        by blast
      moreover from True have "one_time_infos w \<union> insert m (set (renderings fmt cs)) =
          one_time_infos w \<union> set (renderings fmt cs)"
        and "insert m (set (renderings fmt cs)) - one_time_infos w =
          set (renderings fmt cs) - one_time_infos w"
        by auto
      ultimately show ?thesis
        using c Inr True
        by (intro exI [of _ rs]) (simp add: info_once_seen)
    next
      case False
      from info_once_new [where fmt = fmt and message = message and args = args and m = m
          and w = w and lg = lg and kw = kw] Inr False
      obtain r where step: "Logger_info_once fmt lg message args kw w =
            (Inr (), w\<lparr>one_time_infos := insert m (one_time_infos w), sink := sink w @ [r]\<rparr>)"
        and r: "rc_msg r = message" "rc_args r = args"
        by blast
      let ?w1 = "w\<lparr>one_time_infos := insert m (one_time_infos w), sink := sink w @ [r]\<rparr>"
      from Cons.IH [of ?w1] obtain rs where run: "info_once_calls fmt cs ?w1 =
           ?w1\<lparr>one_time_infos := one_time_infos ?w1 \<union> set (renderings fmt cs),
             sink := sink ?w1 @ rs\<rparr>"
        and dist: "distinct (map (rendering fmt) rs)"
        and keys: "set (map (rendering fmt) rs) =
             Inr ` (set (renderings fmt cs) - one_time_infos ?w1)"
        by blast
      from r Inr have key: "rendering fmt r = Inr m"
        by (simp add: rendering_def)
      have "info_once_calls fmt (c # cs) w =
           w\<lparr>one_time_infos := one_time_infos w \<union> set (renderings fmt (c # cs)),
             sink := sink w @ (r # rs)\<rparr>"
        using c Inr step run by simp
      moreover have "distinct (map (rendering fmt) (r # rs))"
        using dist keys key by auto
      moreover have "set (map (rendering fmt) (r # rs)) =
          Inr ` (set (renderings fmt (c # cs)) - one_time_infos w)"
        using keys key c Inr False by auto
      ultimately show ?thesis
        by (intro exI [of _ "r # rs"]) simp
    qed
  qed
qed

lemma info_once_calls_initial:
  "distinct (map (rendering fmt) (sink (info_once_calls fmt cs initial_world))) \<and>
   set (map (rendering fmt) (sink (info_once_calls fmt cs initial_world))) =
     Inr ` set (renderings fmt cs) \<and>
   one_time_infos (info_once_calls fmt cs initial_world) = set (renderings fmt cs)"
proof -
  from info_once_calls_run [of fmt cs initial_world]
  obtain rs where "info_once_calls fmt cs initial_world =
           initial_world\<lparr>one_time_infos :=
               one_time_infos initial_world \<union> set (renderings fmt cs),
             sink := sink initial_world @ rs\<rparr>"
    and "distinct (map (rendering fmt) rs)"
    and "set (map (rendering fmt) rs) =
           Inr ` (set (renderings fmt cs) - one_time_infos initial_world)"
    by blast
  then show ?thesis
    by (simp add: initial_world_def)
qed


lemma warning_once_fails:
  "fmt message args = Inl e \<Longrightarrow> Logger_warning_once fmt lg message args kw w = (Inl e, w)"
  by (simp add: Logger_warning_once_def)

lemma warning_once_seen:
  "fmt message args = Inr m \<Longrightarrow> m \<in> one_time_warnings w \<Longrightarrow>
   Logger_warning_once fmt lg message args kw w = (Inr (), w)"
  by (simp add: Logger_warning_once_def)

lemma warning_once_new:
  assumes "fmt message args = Inr m" and "m \<notin> one_time_warnings w"
  shows "\<exists>r. Logger_warning_once fmt lg message args kw w =
            (Inr (), w\<lparr>one_time_warnings := insert m (one_time_warnings w), sink := sink w @ [r]\<rparr>) \<and>
          rc_msg r = message \<and> rc_args r = args \<and> rc_level r = WARNING"
proof -
  from Logger_log_record [of lg WARNING message args kw "PStr ''warning_once''" PNone
      "w\<lparr>one_time_warnings := insert m (one_time_warnings w)\<rparr>"]
  obtain r where "Logger_log lg WARNING message args kw (PStr ''warning_once'') PNone
        (w\<lparr>one_time_warnings := insert m (one_time_warnings w)\<rparr>) =
      w\<lparr>one_time_warnings := insert m (one_time_warnings w), sink := sink w @ [r]\<rparr>"
    and "rc_msg r = message" and "rc_args r = args" and "rc_level r = WARNING"
    by auto
  with assms show ?thesis
    by (intro exI [of _ r]) (simp add: Logger_warning_once_def Let_def)
qed

lemma warning_once_calls_run:
  "\<exists>rs. warning_once_calls fmt cs w =
           w\<lparr>one_time_warnings := one_time_warnings w \<union> set (renderings fmt cs),
             sink := sink w @ rs\<rparr> \<and>
         distinct (map (rendering fmt) rs) \<and>
         set (map (rendering fmt) rs) = Inr ` (set (renderings fmt cs) - one_time_warnings w)"
proof (induction cs arbitrary: w)
  case Nil
  show ?case by (intro exI [of _ "[]"]) simp
next
  case (Cons c cs)
  obtain lg message args kw where c: "c = (lg, message, args, kw)"
    by (cases c) auto
  show ?case
  proof (cases "fmt message args")
    case (Inl e)
    from Cons.IH [of w] obtain rs where "warning_once_calls fmt cs w =
           w\<lparr>one_time_warnings := one_time_warnings w \<union> set (renderings fmt cs),
             sink := sink w @ rs\<rparr>"
      and "distinct (map (rendering fmt) rs)"
      and "set (map (rendering fmt) rs) = Inr ` (set (renderings fmt cs) - one_time_warnings w)"
      by blast
    with c Inl show ?thesis
      by (intro exI [of _ rs]) (simp add: warning_once_fails)
  next
    case (Inr m)
    show ?thesis
    proof (cases "m \<in> one_time_warnings w")
      case True
      from Cons.IH [of w] obtain rs where "warning_once_calls fmt cs w =
           w\<lparr>one_time_warnings := one_time_warnings w \<union> set (renderings fmt cs),
             sink := sink w @ rs\<rparr>"
        and "distinct (map (rendering fmt) rs)"
        and "set (map (rendering fmt) rs) = Inr ` (set (renderings fmt cs) - one_time_warnings w)"
        by blast
      moreover from True have "one_time_warnings w \<union> insert m (set (renderings fmt cs)) =
          one_time_warnings w \<union> set (renderings fmt cs)"
        and "insert m (set (renderings fmt cs)) - one_time_warnings w =
          set (renderings fmt cs) - one_time_warnings w"
        by auto
      ultimately show ?thesis
        using c Inr True
        by (intro exI [of _ rs]) (simp add: warning_once_seen)
    next
      case False
      from warning_once_new [where fmt = fmt and message = message and args = args and m = m
          and w = w and lg = lg and kw = kw] Inr False
      obtain r where step: "Logger_warning_once fmt lg message args kw w =
            (Inr (), w\<lparr>one_time_warnings := insert m (one_time_warnings w), sink := sink w @ [r]\<rparr>)"
        and r: "rc_msg r = message" "rc_args r = args"
        by blast
      let ?w1 = "w\<lparr>one_time_warnings := insert m (one_time_warnings w), sink := sink w @ [r]\<rparr>"
      from Cons.IH [of ?w1] obtain rs where run: "warning_once_calls fmt cs ?w1 =
           ?w1\<lparr>one_time_warnings := one_time_warnings ?w1 \<union> set (renderings fmt cs),
             sink := sink ?w1 @ rs\<rparr>"
        and dist: "distinct (map (rendering fmt) rs)"
        and keys: "set (map (rendering fmt) rs) =
             Inr ` (set (renderings fmt cs) - one_time_warnings ?w1)"
        by blast
      from r Inr have key: "rendering fmt r = Inr m"
        by (simp add: rendering_def)
      have "warning_once_calls fmt (c # cs) w =
           w\<lparr>one_time_warnings := one_time_warnings w \<union> set (renderings fmt (c # cs)),
             sink := sink w @ (r # rs)\<rparr>"
        using c Inr step run by simp
      moreover have "distinct (map (rendering fmt) (r # rs))"
        using dist keys key by auto
      moreover have "set (map (rendering fmt) (r # rs)) =
          Inr ` (set (renderings fmt (c # cs)) - one_time_warnings w)"
        using keys key c Inr False by auto
      ultimately show ?thesis
        by (intro exI [of _ "r # rs"]) simp
    qed
  qed
qed

lemma warning_once_calls_initial:
  "distinct (map (rendering fmt) (sink (warning_once_calls fmt cs initial_world))) \<and>
   set (map (rendering fmt) (sink (warning_once_calls fmt cs initial_world))) =
     Inr ` set (renderings fmt cs) \<and>
   one_time_warnings (warning_once_calls fmt cs initial_world) = set (renderings fmt cs)"
proof -
  from warning_once_calls_run [of fmt cs initial_world]
  obtain rs where "warning_once_calls fmt cs initial_world =
           initial_world\<lparr>one_time_warnings :=
               one_time_warnings initial_world \<union> set (renderings fmt cs),
             sink := sink initial_world @ rs\<rparr>"
    and "distinct (map (rendering fmt) rs)"
    and "set (map (rendering fmt) rs) =
           Inr ` (set (renderings fmt cs) - one_time_warnings initial_world)"
    by blast
  then show ?thesis
    by (simp add: initial_world_def)
qed

lemma py_format_connected:
  "py_format ''User %s connected'' [PStr ''bob''] = Inr ''User bob connected''"
  "py_format ''User %s connected'' [PStr ''alice''] = Inr ''User alice connected''"
  by simp_all

lemmas once_defs =
  connected_def tubes_logger_def rootlogger_def Logger_info_once_def Logger_warning_once_def
  Logger_log_def setdefault_def no_kwargs_def initial_world_def INFO_def WARNING_def Let_def

text \<open>
  Claim C4. An \<^verbatim>\<open>info_once\<close> call whose message and arguments render to a string that is
  in the shared set is skipped: nothing is emitted and nothing changes. Otherwise the
  string enters the set and exactly one record, at level \<^verbatim>\<open>INFO\<close> with the message and the
  arguments of the call, is emitted. For every sequence of such calls in one process, on
  whatever loggers, the records emitted render pairwise distinct strings, and these are
  exactly the strings that the calls of the sequence render; the set ends as the set of
  these strings. The same holds of \<^verbatim>\<open>warning_once\<close>, with its own set and the level
  \<^verbatim>\<open>WARNING\<close>. A call whose message does not format with its arguments raises before it
  touches the set.
\<close>

theorem once_deduplicated:
  "(fmt message args = Inr m \<and> m \<in> one_time_infos w \<longrightarrow>
      Logger_info_once fmt lg message args kw w = (Inr (), w)) \<and>
   (fmt message args = Inr m \<and> m \<notin> one_time_infos w \<longrightarrow>
      (\<exists>r. Logger_info_once fmt lg message args kw w =
              (Inr (), w\<lparr>one_time_infos := insert m (one_time_infos w),
                          sink := sink w @ [r]\<rparr>) \<and>
           rc_msg r = message \<and> rc_args r = args \<and> rc_level r = INFO)) \<and>
   distinct (map (rendering fmt) (sink (info_once_calls fmt cs initial_world))) \<and>
   set (map (rendering fmt) (sink (info_once_calls fmt cs initial_world))) =
     Inr ` set (renderings fmt cs) \<and>
   one_time_infos (info_once_calls fmt cs initial_world) = set (renderings fmt cs) \<and>
   (fmt message args = Inr m \<and> m \<in> one_time_warnings w \<longrightarrow>
      Logger_warning_once fmt lg message args kw w = (Inr (), w)) \<and>
   (fmt message args = Inr m \<and> m \<notin> one_time_warnings w \<longrightarrow>
      (\<exists>r. Logger_warning_once fmt lg message args kw w =
              (Inr (), w\<lparr>one_time_warnings := insert m (one_time_warnings w),
                          sink := sink w @ [r]\<rparr>) \<and>
           rc_msg r = message \<and> rc_args r = args \<and> rc_level r = WARNING)) \<and>
   distinct (map (rendering fmt) (sink (warning_once_calls fmt cs initial_world))) \<and>
   set (map (rendering fmt) (sink (warning_once_calls fmt cs initial_world))) =
     Inr ` set (renderings fmt cs) \<and>
   one_time_warnings (warning_once_calls fmt cs initial_world) = set (renderings fmt cs)"
proof -
  have i1: "fmt message args = Inr m \<and> m \<in> one_time_infos w \<longrightarrow>
      Logger_info_once fmt lg message args kw w = (Inr (), w)"
    by (simp add: Logger_info_once_def)
  have i2: "fmt message args = Inr m \<and> m \<notin> one_time_infos w \<longrightarrow>
      (\<exists>r. Logger_info_once fmt lg message args kw w =
              (Inr (), w\<lparr>one_time_infos := insert m (one_time_infos w),
                          sink := sink w @ [r]\<rparr>) \<and>
           rc_msg r = message \<and> rc_args r = args \<and> rc_level r = INFO)"
    using info_once_new [where fmt = fmt and message = message and args = args and m = m
          and w = w and lg = lg and kw = kw]
    by blast
  have w1: "fmt message args = Inr m \<and> m \<in> one_time_warnings w \<longrightarrow>
      Logger_warning_once fmt lg message args kw w = (Inr (), w)"
    by (simp add: Logger_warning_once_def)
  have w2: "fmt message args = Inr m \<and> m \<notin> one_time_warnings w \<longrightarrow>
      (\<exists>r. Logger_warning_once fmt lg message args kw w =
              (Inr (), w\<lparr>one_time_warnings := insert m (one_time_warnings w),
                          sink := sink w @ [r]\<rparr>) \<and>
           rc_msg r = message \<and> rc_args r = args \<and> rc_level r = WARNING)"
    using warning_once_new [where fmt = fmt and message = message and args = args and m = m
          and w = w and lg = lg and kw = kw]
    by blast
  from i1 i2 w1 w2 info_once_calls_initial [of fmt cs] warning_once_calls_initial [of fmt cs]
  show ?thesis
    by (intro conjI) blast+
qed

theorem once_deduplicated_witness:
  "py_format ''User %s connected'' [PStr ''bob''] = Inr ''User bob connected'' \<and>
   ''User bob connected'' \<notin> one_time_infos initial_world \<and>
   ''User bob connected'' \<in>
      one_time_infos (info_once_calls py_format [connected rootlogger ''bob''] initial_world) \<and>
   sink (snd (Logger_info_once py_format tubes_logger ''User %s connected'' [PStr ''bob''] no_kwargs
      (info_once_calls py_format [connected rootlogger ''bob''] initial_world))) =
     sink (info_once_calls py_format [connected rootlogger ''bob''] initial_world) \<and>
   map rc_args (sink (info_once_calls py_format
      [connected rootlogger ''bob'', connected tubes_logger ''bob'', connected rootlogger ''bob'']
      initial_world)) = [[PStr ''bob'']] \<and>
   map rc_args (sink (info_once_calls py_format
      [connected rootlogger ''bob'', connected tubes_logger ''alice''] initial_world)) =
     [[PStr ''bob''], [PStr ''alice'']] \<and>
   ''User bob connected'' \<notin> one_time_warnings initial_world \<and>
   map rc_args (sink (warning_once_calls py_format
      [connected rootlogger ''bob'', connected tubes_logger ''bob'', connected rootlogger ''alice'']
      initial_world)) = [[PStr ''bob''], [PStr ''alice'']]"
  using once_deduplicated [of py_format "''User %s connected''" "[PStr ''bob'']"
      "''User bob connected''"
      "info_once_calls py_format [connected rootlogger ''bob''] initial_world"
      tubes_logger no_kwargs
      "[connected rootlogger ''bob'', connected tubes_logger ''bob'', connected rootlogger ''bob'']"]
    once_deduplicated [of py_format "''User %s connected''" "[PStr ''bob'']"
      "''User bob connected''" initial_world rootlogger no_kwargs
      "[connected rootlogger ''bob'', connected tubes_logger ''alice'']"]
  by (simp add: once_defs)

subsection \<open>The method \<open>error\<close>\<close>

text \<open>
  Whatever the operator \<^verbatim>\<open>%\<close> does, \<open>error\<close> emits one \<^verbatim>\<open>ERROR\<close> record and then raises;
  what it raises is a \<^verbatim>\<open>PwnlibException\<close> with the formatted message when the message
  formats with its arguments.
\<close>

lemma Logger_error_raises:
  "(\<exists>r. snd (Logger_error fmt lg message args kw w) = w\<lparr>sink := sink w @ [r]\<rparr> \<and>
        rc_level r = ERROR \<and> rc_msg r = message \<and> rc_args r = args \<and>
        (unmarked kw \<longrightarrow> msgtype_of r = Some (PStr ''error''))) \<and>
   (\<exists>e. fst (Logger_error fmt lg message args kw w) = Inl e) \<and>
   (\<forall>m. fmt message args = Inr m \<longrightarrow>
        fst (Logger_error fmt lg message args kw w) = Inl (PwnlibException m))"
proof -
  from Logger_log_record [of lg ERROR message args kw "PStr ''error''" PNone w]
  obtain r where "Logger_log lg ERROR message args kw (PStr ''error'') PNone w =
      w\<lparr>sink := sink w @ [r]\<rparr>"
    and "rc_level r = ERROR" "rc_msg r = message" "rc_args r = args"
    and "unmarked kw \<longrightarrow> msgtype_of r = Some (PStr ''error'')"
    by blast
  then have "\<exists>r. snd (Logger_error fmt lg message args kw w) = w\<lparr>sink := sink w @ [r]\<rparr> \<and>
        rc_level r = ERROR \<and> rc_msg r = message \<and> rc_args r = args \<and>
        (unmarked kw \<longrightarrow> msgtype_of r = Some (PStr ''error''))"
    by (intro exI [of _ r]) (simp add: Logger_error_def Let_def split: sum.splits)
  moreover have "\<exists>e. fst (Logger_error fmt lg message args kw w) = Inl e"
    by (simp add: Logger_error_def Let_def split: sum.splits)
  moreover have "\<forall>m. fmt message args = Inr m \<longrightarrow>
        fst (Logger_error fmt lg message args kw w) = Inl (PwnlibException m)"
    by (simp add: Logger_error_def Let_def)
  ultimately show ?thesis by blast
qed

text \<open>
  Claim C8 at the call \<^verbatim>\<open>error('100%')\<close>. The \<^verbatim>\<open>ERROR\<close> record tagged \<^verbatim>\<open>error\<close> is emitted,
  but the exception raised is the \<^verbatim>\<open>ValueError\<close> of \<^verbatim>\<open>'100%' % ()\<close>, not a
  \<^verbatim>\<open>PwnlibException\<close>: the message is formatted while the exception is being built, and a
  message that does not format with its arguments never gets that far.
\<close>

theorem error_incomplete_format:
  "fst (Logger_error py_format rootlogger ''100%'' [] no_kwargs initial_world) =
     Inl (ValueError ''incomplete format'') \<and>
   map rc_msg (sink (snd (Logger_error py_format rootlogger ''100%'' [] no_kwargs initial_world))) =
     [''100%''] \<and>
   map rc_level (sink (snd (Logger_error py_format rootlogger ''100%'' [] no_kwargs
     initial_world))) = [ERROR] \<and>
   map msgtype_of (sink (snd (Logger_error py_format rootlogger ''100%'' [] no_kwargs
     initial_world))) = [Some (PStr ''error'')]"
  by (simp add: Logger_error_def Logger_log_def setdefault_def no_kwargs_def initial_world_def
      rootlogger_def msgtype_of_def extra_of_def Let_def)

end
